theory Spec2Isabelle
  imports Main "HOL-Library.Sublist" "HOL-Library.AList"
begin

section \<open>Python values\<close>

text \<open>
  The events, filter values and RPC results of \<^verbatim>\<open>walrus_agent_sdk/blockchain.py\<close> are what
  \<^verbatim>\<open>response.json()\<close> produces: \<^verbatim>\<open>None\<close>, booleans, integers, strings, lists and
  dictionaries with string keys. A dictionary is an association list read with \<open>map_of\<close>
  (the first binding of a key is its binding). Floating-point numbers are left out of the
  value universe. Strings are ASCII text: \<^verbatim>\<open>str.lower\<close> and \<^verbatim>\<open>str.upper\<close> change the
  letters A-Z and a-z only.
\<close>

datatype pyval =
    PNone
  | PBool bool
  | PInt int
  | PStr string
  | PList "pyval list"
  | PDict "(string \<times> pyval) list"

type_synonym pydict = "(string \<times> pyval) list"

text \<open>
  The exceptions the modelled code raises or lets through; each carries \<^verbatim>\<open>str(e)\<close>.
\<close>

datatype exn =
    BlockchainError string
  | AttributeError string
  | TypeError string
  | ValueError string
  | KeyError string

fun exn_str :: "exn \<Rightarrow> string" where
  "exn_str (BlockchainError m) = m"
| "exn_str (AttributeError m) = m"
| "exn_str (TypeError m) = m"
| "exn_str (ValueError m) = m"
| "exn_str (KeyError m) = m"

fun type_name :: "pyval \<Rightarrow> string" where
  "type_name PNone = ''NoneType''"
| "type_name (PBool _) = ''bool''"
| "type_name (PInt _) = ''int''"
| "type_name (PStr _) = ''str''"
| "type_name (PList _) = ''list''"
| "type_name (PDict _) = ''dict''"

definition quoted :: "string \<Rightarrow> string" where
  "quoted s = [char_of (39::nat)] @ s @ [char_of (39::nat)]"

definition no_attribute :: "pyval \<Rightarrow> string \<Rightarrow> exn" where
  "no_attribute v attr =
     AttributeError (quoted (type_name v) @ '' object has no attribute '' @ quoted attr)"

text \<open>
  Python's \<^verbatim>\<open>==\<close> on these values. \<^verbatim>\<open>bool\<close> is a subclass of \<^verbatim>\<open>int\<close>:
  \<^verbatim>\<open>True == 1\<close> and \<^verbatim>\<open>False == 0\<close>. Lists are equal when they have the same length and
  equal elements; dictionaries when they have the same keys and equal values. Values of
  unrelated types are unequal.
\<close>

fun py_eq :: "pyval \<Rightarrow> pyval \<Rightarrow> bool"
  and py_eq_list :: "pyval list \<Rightarrow> pyval list \<Rightarrow> bool"
  and py_eq_items :: "(string \<times> pyval) list \<Rightarrow> (string \<times> pyval) list \<Rightarrow> bool"
where
  "py_eq PNone b = (b = PNone)"
| "py_eq (PBool x) b =
     (case b of PBool y \<Rightarrow> x = y | PInt j \<Rightarrow> (if x then 1 else 0) = j | _ \<Rightarrow> False)"
| "py_eq (PInt i) b =
     (case b of PInt j \<Rightarrow> i = j | PBool y \<Rightarrow> i = (if y then 1 else 0) | _ \<Rightarrow> False)"
| "py_eq (PStr s) b = (b = PStr s)"
| "py_eq (PList xs) b = (case b of PList ys \<Rightarrow> py_eq_list xs ys | _ \<Rightarrow> False)"
| "py_eq (PDict d) b =
     (case b of PDict d' \<Rightarrow> set (map fst d) = set (map fst d') \<and> py_eq_items d d'
      | _ \<Rightarrow> False)"
| "py_eq_list [] ys = (ys = [])"
| "py_eq_list (x # xs) ys =
     (case ys of [] \<Rightarrow> False | y # ys' \<Rightarrow> py_eq x y \<and> py_eq_list xs ys')"
| "py_eq_items [] d' = True"
| "py_eq_items ((k, x) # d) d' =
     ((case map_of d' k of None \<Rightarrow> False | Some y \<Rightarrow> py_eq x y) \<and> py_eq_items d d')"

section \<open>Strings\<close>

definition lower_char :: "char \<Rightarrow> char" where
  "lower_char c =
     (if 65 \<le> (of_char c :: nat) \<and> (of_char c :: nat) \<le> 90
      then char_of ((of_char c :: nat) + 32) else c)"

definition upper_char :: "char \<Rightarrow> char" where
  "upper_char c =
     (if 97 \<le> (of_char c :: nat) \<and> (of_char c :: nat) \<le> 122
      then char_of ((of_char c :: nat) - 32) else c)"

definition lower :: "string \<Rightarrow> string" where
  "lower s = map lower_char s"

definition upper :: "string \<Rightarrow> string" where
  "upper s = map upper_char s"

text \<open>\<^verbatim>\<open>sub in s\<close> on strings: \<open>sub\<close> occurs in \<open>s\<close> as a contiguous run.\<close>

definition py_in :: "string \<Rightarrow> string \<Rightarrow> bool" where
  "py_in sub s = sublist sub s"

text \<open>\<^verbatim>\<open>key.split(".")\<close>: the pieces between the dots, empty pieces included.\<close>

fun split_dot :: "string \<Rightarrow> string list" where
  "split_dot [] = [[]]"
| "split_dot (c # cs) =
     (if c = CHR ''.'' then [] # split_dot cs
      else (case split_dot cs of [] \<Rightarrow> [[c]] | p # ps \<Rightarrow> (c # p) # ps))"

text \<open>\<^verbatim>\<open>str(n)\<close> for an integer: its decimal digits, with a minus sign when negative.\<close>

fun str_nat :: "nat \<Rightarrow> string" where
  "str_nat n =
     (if n < 10 then [char_of (48 + n)]
      else str_nat (n div 10) @ [char_of (48 + n mod 10)])"

declare str_nat.simps [simp del]

definition str_int :: "int \<Rightarrow> string" where
  "str_int i = (if i < 0 then CHR ''-'' # str_nat (nat (- i)) else str_nat (nat i))"

section \<open>The event matcher\<close>

datatype EventType =
    NFT_TRANSFER
  | TOKEN_TRANSFER
  | OBJECT_CHANGE
  | MOVE_EVENT
  | EPOCH_CHANGE
  | CHECKPOINT
  | CUSTOM

text \<open>\<^verbatim>\<open>event.get(key, default)\<close>.\<close>

definition dict_get :: "pydict \<Rightarrow> string \<Rightarrow> pyval \<Rightarrow> pyval" where
  "dict_get d k dflt = (case map_of d k of None \<Rightarrow> dflt | Some v \<Rightarrow> v)"

text \<open>
  \<^verbatim>\<open>event_type_str.lower()\<close>: only a string has the method; on any other value the
  attribute lookup raises \<^verbatim>\<open>AttributeError\<close>.
\<close>

definition py_lower :: "pyval \<Rightarrow> exn + string" where
  "py_lower v = (case v of PStr s \<Rightarrow> Inr (lower s) | _ \<Rightarrow> Inl (no_attribute v ''lower''))"

text \<open>
  The \<^verbatim>\<open>if/elif\<close> chain on the event type at the head of \<^verbatim>\<open>_event_matches\<close>.
  \<open>Inr False\<close> is the early \<^verbatim>\<open>return False\<close>, \<open>Inr True\<close> falls through to the filters.
\<close>

fun category_check :: "EventType \<Rightarrow> pyval \<Rightarrow> exn + bool" where
  "category_check CUSTOM t = Inr True"
| "category_check NFT_TRANSFER t =
     (case py_lower t of Inl e \<Rightarrow> Inl e
      | Inr s \<Rightarrow> if \<not> py_in ''nft'' s \<and> \<not> py_in ''transfer'' s then Inr False else Inr True)"
| "category_check TOKEN_TRANSFER t =
     (case py_lower t of Inl e \<Rightarrow> Inl e
      | Inr s \<Rightarrow> if \<not> py_in ''coin'' s \<and> \<not> py_in ''transfer'' s then Inr False else Inr True)"
| "category_check OBJECT_CHANGE t =
     (case py_lower t of Inl e \<Rightarrow> Inl e
      | Inr s \<Rightarrow> if \<not> py_in ''object'' s then Inr False else Inr True)"
| "category_check MOVE_EVENT t = Inr True"
| "category_check EPOCH_CHANGE t =
     (case py_lower t of Inl e \<Rightarrow> Inl e
      | Inr s \<Rightarrow> if \<not> py_in ''epoch'' s then Inr False else Inr True)"
| "category_check CHECKPOINT t =
     (case py_lower t of Inl e \<Rightarrow> Inl e
      | Inr s \<Rightarrow> if \<not> py_in ''checkpoint'' s then Inr False else Inr True)"

text \<open>
  The inner loop \<^verbatim>\<open>for part in parts\<close> over a dotted key; \<open>None\<close> is its
  \<^verbatim>\<open>return False\<close>, \<open>Some current\<close> the value reached.
\<close>

fun descend :: "pyval \<Rightarrow> string list \<Rightarrow> pyval option" where
  "descend current [] = Some current"
| "descend current (part # parts) =
     (case current of
        PDict d \<Rightarrow> (case map_of d part of None \<Rightarrow> None | Some v \<Rightarrow> descend v parts)
      | _ \<Rightarrow> None)"

text \<open>The loop \<^verbatim>\<open>for key, value in filter_params.items()\<close>.\<close>

fun filter_loop :: "pydict \<Rightarrow> (string \<times> pyval) list \<Rightarrow> bool" where
  "filter_loop event [] = True"
| "filter_loop event ((key, val) # rest) =
     (if py_in ''.'' key then
        (case descend (PDict event) (split_dot key) of
           None \<Rightarrow> False
         | Some current \<Rightarrow> if \<not> py_eq current val then False else filter_loop event rest)
      else if map_of event key = None \<or> \<not> py_eq (the (map_of event key)) val then False
      else filter_loop event rest)"

definition event_matches :: "pydict \<Rightarrow> EventType \<Rightarrow> pydict \<Rightarrow> exn + bool" where
  "event_matches event event_type filter_params =
     (case category_check event_type (dict_get event ''type'' (PStr '''')) of
        Inl e \<Rightarrow> Inl e
      | Inr False \<Rightarrow> Inr False
      | Inr True \<Rightarrow> Inr (filter_loop event filter_params))"

section \<open>The RPC transport\<close>

text \<open>
  What one \<^verbatim>\<open>requests.post\<close> round of \<^verbatim>\<open>_make_rpc_call\<close> comes to:
  \<^item> \<open>RequestFailed m\<close>: \<^verbatim>\<open>post\<close>, \<^verbatim>\<open>raise_for_status\<close> or \<^verbatim>\<open>response.json()\<close> raised a
    \<^verbatim>\<open>requests.RequestException\<close> or a \<^verbatim>\<open>json.JSONDecodeError\<close> \<open>e\<close> with \<^verbatim>\<open>str(e) = m\<close>;
  \<^item> \<open>ErrorBody msg repr\<close>: the body has an \<^verbatim>\<open>"error"\<close> entry, \<open>msg\<close> its
    \<^verbatim>\<open>"message"\<close> when present and \<open>repr\<close> the text of \<^verbatim>\<open>str(result["error"])\<close>;
  \<^item> \<open>ResultBody v\<close>: the body has no \<^verbatim>\<open>"error"\<close> entry and \<^verbatim>\<open>result["result"]\<close> is \<open>v\<close>;
  \<^item> \<open>BadBody e\<close>: the body parses, but reading it raises \<open>e\<close> (no \<^verbatim>\<open>"result"\<close> key,
    a body or an error entry that is not a dictionary).
  The network is a function of the number of requests made so far, the method and the
  parameters; \<open>int_builtin\<close> is Python's \<^verbatim>\<open>int()\<close>.
\<close>

datatype response =
    RequestFailed string
  | ErrorBody "string option" string
  | ResultBody pyval
  | BadBody exn

record env =
  MAX_RETRIES :: int
  RETRY_DELAY :: int
  POLLING_INTERVAL :: int
  net :: "nat \<Rightarrow> string \<Rightarrow> pyval list \<Rightarrow> response"
  int_builtin :: "pyval \<Rightarrow> exn + int"

text \<open>
  What the code does to the outside: the requests posted, in order; the
  \<^verbatim>\<open>time.sleep\<close> calls; the waits on the stop event; the callbacks invoked, each with
  its subscription id and event.
\<close>

record world =
  rpc_log :: "(string \<times> pyval list) list"
  sleeps :: "int list"
  waits :: "int list"
  delivered :: "(string \<times> string \<times> pydict) list"

text \<open>
  The \<^verbatim>\<open>while retry_count < MAX_RETRIES\<close> loop of \<^verbatim>\<open>_make_rpc_call\<close>. A
  \<^verbatim>\<open>BlockchainError\<close> raised inside the \<^verbatim>\<open>try\<close> is not one of the caught classes and
  leaves the loop. When the loop body never runs the function ends without a
  \<^verbatim>\<open>return\<close>, which yields \<^verbatim>\<open>None\<close>.
\<close>

function rpc_retry_loop ::
  "env \<Rightarrow> string \<Rightarrow> pyval list \<Rightarrow> int \<Rightarrow> world \<Rightarrow> (exn + pyval) \<times> world" where
  "rpc_retry_loop cfg method params retry_count w =
     (if retry_count < MAX_RETRIES cfg then
        (let w1 = w\<lparr>rpc_log := rpc_log w @ [(method, params)]\<rparr> in
         case net cfg (length (rpc_log w)) method params of
           ResultBody v \<Rightarrow> (Inr v, w1)
         | ErrorBody msg repr \<Rightarrow>
             (Inl (BlockchainError
                (''RPC error: '' @ (case msg of Some m \<Rightarrow> m | None \<Rightarrow> repr))), w1)
         | BadBody e \<Rightarrow> (Inl e, w1)
         | RequestFailed e \<Rightarrow>
             (if retry_count + 1 \<ge> MAX_RETRIES cfg then
                (Inl (BlockchainError
                   (''Failed to make RPC call after '' @ str_int (MAX_RETRIES cfg)
                    @ '' retries: '' @ e)), w1)
              else rpc_retry_loop cfg method params (retry_count + 1)
                     (w1\<lparr>sleeps := sleeps w1 @ [RETRY_DELAY cfg]\<rparr>)))
      else (Inr PNone, w))"
  by pat_completeness auto
termination
  by (relation "measure (\<lambda>(cfg, method, params, retry_count, w).
        nat (MAX_RETRIES cfg - retry_count))") auto

declare rpc_retry_loop.simps [simp del]

definition make_rpc_call ::
  "env \<Rightarrow> string \<Rightarrow> pyval list \<Rightarrow> world \<Rightarrow> (exn + pyval) \<times> world" where
  "make_rpc_call cfg method params w = rpc_retry_loop cfg method params 0 w"

definition get_latest_checkpoint :: "env \<Rightarrow> world \<Rightarrow> (exn + int) \<times> world" where
  "get_latest_checkpoint cfg w =
     (case make_rpc_call cfg ''sui_getLatestCheckpointSequenceNumber'' [] w of
        (Inl e, w1) \<Rightarrow>
          (Inl (BlockchainError (''Failed to get latest checkpoint: '' @ exn_str e)), w1)
      | (Inr result, w1) \<Rightarrow>
          (case int_builtin cfg result of
             Inl e \<Rightarrow>
               (Inl (BlockchainError (''Failed to get latest checkpoint: '' @ exn_str e)), w1)
           | Inr n \<Rightarrow> (Inr n, w1)))"

text \<open>\<^verbatim>\<open>get_events_by_checkpoint\<close> catches every exception and returns \<^verbatim>\<open>[]\<close>.\<close>

definition get_events_by_checkpoint :: "env \<Rightarrow> int \<Rightarrow> world \<Rightarrow> pyval \<times> world" where
  "get_events_by_checkpoint cfg checkpoint w =
     (case make_rpc_call cfg ''sui_getCheckpointEvents'' [PInt checkpoint] w of
        (Inl e, w1) \<Rightarrow> (PList [], w1)
      | (Inr result, w1) \<Rightarrow> (result, w1))"

section \<open>The client, subscriptions and dispatch\<close>

text \<open>
  A callback is opaque: it is known by a handle, and calling it is recorded in
  \<open>delivered\<close>. Whatever it raises is caught by \<^verbatim>\<open>_process_events\<close>.
\<close>

record listener =
  event_type :: EventType
  callback :: string
  filter_params :: pydict

record client =
  private_key :: string
  event_listeners :: "(string \<times> listener) list"
  event_polling_thread_alive :: bool
  last_processed_checkpoint :: "int option"

text \<open>The inner loop of \<^verbatim>\<open>_process_events\<close>, over the listeners, for one event.\<close>

fun listeners_loop ::
  "pydict \<Rightarrow> (string \<times> listener) list \<Rightarrow> world \<Rightarrow> (exn + unit) \<times> world" where
  "listeners_loop event [] w = (Inr (), w)"
| "listeners_loop event ((subscription_id, l) # ls) w =
     (case event_matches event (event_type l) (filter_params l) of
        Inl e \<Rightarrow> (Inl e, w)
      | Inr True \<Rightarrow>
          listeners_loop event ls
            (w\<lparr>delivered := delivered w @ [(subscription_id, callback l, event)]\<rparr>)
      | Inr False \<Rightarrow> listeners_loop event ls w)"

text \<open>
  The outer loop, over the events. \<^verbatim>\<open>event.get("type", "")\<close> is evaluated for every
  event before any listener is looked at, and only a dictionary has \<^verbatim>\<open>get\<close>.
\<close>

fun events_loop ::
  "(string \<times> listener) list \<Rightarrow> pyval list \<Rightarrow> world \<Rightarrow> (exn + unit) \<times> world" where
  "events_loop ls [] w = (Inr (), w)"
| "events_loop ls (ev # evs) w =
     (case ev of
        PDict event \<Rightarrow>
          (case listeners_loop event ls w of
             (Inl e, w1) \<Rightarrow> (Inl e, w1)
           | (Inr _, w1) \<Rightarrow> events_loop ls evs w1)
      | _ \<Rightarrow> (Inl (no_attribute ev ''get''), w))"

text \<open>
  \<^verbatim>\<open>for event in events\<close> on whatever the node returned: a list yields its elements, a
  dictionary its keys, a string its characters; nothing else is iterable.
\<close>

definition process_events ::
  "(string \<times> listener) list \<Rightarrow> pyval \<Rightarrow> world \<Rightarrow> (exn + unit) \<times> world" where
  "process_events ls events w =
     (case events of
        PList evs \<Rightarrow> events_loop ls evs w
      | PDict d \<Rightarrow> events_loop ls (map (\<lambda>kv. PStr (fst kv)) d) w
      | PStr s \<Rightarrow> events_loop ls (map (\<lambda>c. PStr [c]) s) w
      | _ \<Rightarrow> (Inl (TypeError (quoted (type_name events) @ '' object is not iterable'')), w))"

section \<open>The polling loop\<close>

text \<open>
  The body of \<^verbatim>\<open>for checkpoint in range(last + 1, latest + 1)\<close>, over the values of
  the range. An exception leaves the loop with the cursor as it stands.
\<close>

fun poll_checkpoints ::
  "env \<Rightarrow> int list \<Rightarrow> client \<Rightarrow> world \<Rightarrow> (exn + unit) \<times> client \<times> world" where
  "poll_checkpoints cfg [] c w = (Inr (), c, w)"
| "poll_checkpoints cfg (checkpoint # rest) c w =
     (case get_events_by_checkpoint cfg checkpoint w of
        (events, w1) \<Rightarrow>
          (case process_events (event_listeners c) events w1 of
             (Inl e, w2) \<Rightarrow> (Inl e, c, w2)
           | (Inr _, w2) \<Rightarrow>
               poll_checkpoints cfg rest
                 (c\<lparr>last_processed_checkpoint := Some checkpoint\<rparr>) w2))"

text \<open>
  One pass of the \<^verbatim>\<open>while\<close> body of \<^verbatim>\<open>_poll_events\<close>: the \<^verbatim>\<open>try\<close> block ends with
  a wait of \<^verbatim>\<open>POLLING_INTERVAL\<close>, the \<^verbatim>\<open>except Exception\<close> handler with a wait of
  \<^verbatim>\<open>RETRY_DELAY\<close>.
\<close>

definition poll_cycle :: "env \<Rightarrow> client \<Rightarrow> world \<Rightarrow> client \<times> world" where
  "poll_cycle cfg c w =
     (case get_latest_checkpoint cfg w of
        (Inl e, w1) \<Rightarrow> (c, w1\<lparr>waits := waits w1 @ [RETRY_DELAY cfg]\<rparr>)
      | (Inr latest_checkpoint, w1) \<Rightarrow>
          (case last_processed_checkpoint c of
             None \<Rightarrow> (c, w1\<lparr>waits := waits w1 @ [RETRY_DELAY cfg]\<rparr>)
           | Some cursor \<Rightarrow>
               (case poll_checkpoints cfg [cursor + 1 .. latest_checkpoint] c w1 of
                  (Inl e, c2, w2) \<Rightarrow> (c2, w2\<lparr>waits := waits w2 @ [RETRY_DELAY cfg]\<rparr>)
                | (Inr _, c2, w2) \<Rightarrow>
                    (c2, w2\<lparr>waits := waits w2 @ [POLLING_INTERVAL cfg]\<rparr>))))"

text \<open>The start of \<^verbatim>\<open>_poll_events\<close>, before the \<^verbatim>\<open>while\<close> loop.\<close>

definition poll_init :: "env \<Rightarrow> client \<Rightarrow> world \<Rightarrow> client \<times> world" where
  "poll_init cfg c w =
     (case last_processed_checkpoint c of
        Some _ \<Rightarrow> (c, w)
      | None \<Rightarrow>
          (case get_latest_checkpoint cfg w of
             (Inr n, w1) \<Rightarrow> (c\<lparr>last_processed_checkpoint := Some n\<rparr>, w1)
           | (Inl e, w1) \<Rightarrow> (c\<lparr>last_processed_checkpoint := Some 0\<rparr>, w1)))"

text \<open>
  The stop flag is set by another thread; \<open>poll_cycles n\<close> is the loop when the flag is
  found set at the top of pass \<open>n\<close>.
\<close>

fun poll_cycles :: "nat \<Rightarrow> env \<Rightarrow> client \<Rightarrow> world \<Rightarrow> client \<times> world" where
  "poll_cycles 0 cfg c w = (c, w)"
| "poll_cycles (Suc n) cfg c w =
     (case poll_cycle cfg c w of (c1, w1) \<Rightarrow> poll_cycles n cfg c1 w1)"

definition poll_events :: "nat \<Rightarrow> env \<Rightarrow> client \<Rightarrow> world \<Rightarrow> client \<times> world" where
  "poll_events n cfg c w =
     (case poll_init cfg c w of (c1, w1) \<Rightarrow> poll_cycles n cfg c1 w1)"

section \<open>Construction, registration and the transaction gateway\<close>

text \<open>
  \<^verbatim>\<open>BlockchainClient.__init__\<close>: \<^verbatim>\<open>private_key or SUI_PRIVATE_KEY\<close>, where the second
  is the environment's value, the empty string when unset. The endpoint URL is part of
  \<open>net\<close>.
\<close>

definition BlockchainClient_init :: "string option \<Rightarrow> string \<Rightarrow> client" where
  "BlockchainClient_init key SUI_PRIVATE_KEY =
     \<lparr>private_key = (case key of None \<Rightarrow> SUI_PRIVATE_KEY
                       | Some k \<Rightarrow> if k = [] then SUI_PRIVATE_KEY else k),
      event_listeners = [],
      event_polling_thread_alive = False,
      last_processed_checkpoint = None\<rparr>"

text \<open>The enumeration's values (\<^verbatim>\<open>event_type.value\<close>) and its lookup by member name.\<close>

fun EventType_value :: "EventType \<Rightarrow> string" where
  "EventType_value NFT_TRANSFER = ''nft_transfer''"
| "EventType_value TOKEN_TRANSFER = ''token_transfer''"
| "EventType_value OBJECT_CHANGE = ''object_change''"
| "EventType_value MOVE_EVENT = ''move_event''"
| "EventType_value EPOCH_CHANGE = ''epoch_change''"
| "EventType_value CHECKPOINT = ''checkpoint''"
| "EventType_value CUSTOM = ''custom''"

definition EventType_by_name :: "string \<Rightarrow> EventType option" where
  "EventType_by_name name =
     map_of [(''NFT_TRANSFER'', NFT_TRANSFER), (''TOKEN_TRANSFER'', TOKEN_TRANSFER),
             (''OBJECT_CHANGE'', OBJECT_CHANGE), (''MOVE_EVENT'', MOVE_EVENT),
             (''EPOCH_CHANGE'', EPOCH_CHANGE), (''CHECKPOINT'', CHECKPOINT),
             (''CUSTOM'', CUSTOM)] name"

text \<open>
  \<^verbatim>\<open>subscribe_to_events\<close>; \<open>now\<close> is \<^verbatim>\<open>int(time.time())\<close>. Storing under an id already
  present replaces that entry, as a dictionary assignment does. The thread is started when
  none is alive; what the thread then does is \<open>poll_events\<close>.
\<close>

definition subscribe_to_events ::
  "client \<Rightarrow> EventType \<Rightarrow> string \<Rightarrow> pydict option \<Rightarrow> int \<Rightarrow> string \<times> client" where
  "subscribe_to_events c et cb fp now =
     (let subscription_id =
            EventType_value et @ ''_'' @ str_int now @ ''_''
            @ str_int (int (length (event_listeners c)));
          l = \<lparr>event_type = et, callback = cb,
               filter_params = (case fp of None \<Rightarrow> [] | Some f \<Rightarrow> if f = [] then [] else f)\<rparr>;
          c1 = c\<lparr>event_listeners := AList.update subscription_id l (event_listeners c)\<rparr>;
          c2 = (if \<not> event_polling_thread_alive c1
                then c1\<lparr>event_polling_thread_alive := True\<rparr> else c1)
      in (subscription_id, c2))"

record agent =
  event_handlers :: "(string \<times> string) list"
  event_subscriptions :: "(string \<times> string) list"
  blockchain_client :: client

text \<open>\<^verbatim>\<open>WalrusAgent._register_event_handler\<close>.\<close>

definition register_event_handler ::
  "agent \<Rightarrow> string \<Rightarrow> string \<Rightarrow> pydict option \<Rightarrow> int \<Rightarrow> agent" where
  "register_event_handler a event_name handler fp now =
     (let (et, fp1) =
            (case EventType_by_name (upper event_name) of
               Some t \<Rightarrow> (t, fp)
             | None \<Rightarrow>
                 (CUSTOM,
                  Some (AList.update ''type'' (PStr event_name)
                          (case fp of None \<Rightarrow> [] | Some f \<Rightarrow> f))));
          (subscription_id, c1) =
            subscribe_to_events (blockchain_client a) et handler fp1 now
      in a\<lparr>event_handlers := AList.update event_name handler (event_handlers a),
           event_subscriptions :=
             AList.update event_name subscription_id (event_subscriptions a),
           blockchain_client := c1\<rparr>)"

text \<open>
  \<^verbatim>\<open>execute_transaction\<close>: the guard on the private key, then the placeholder result.
  \<open>now\<close> is \<^verbatim>\<open>int(time.time())\<close> and \<open>timestamp\<close> is \<^verbatim>\<open>datetime.now().isoformat()\<close>. Neither
  branch calls the transport.
\<close>

definition execute_transaction ::
  "client \<Rightarrow> pydict \<Rightarrow> int \<Rightarrow> string \<Rightarrow> world \<Rightarrow> (exn + pyval) \<times> world" where
  "execute_transaction c tx_data now timestamp w =
     (if private_key c = [] then
        (Inl (BlockchainError ''Private key not set. Cannot execute transactions.''), w)
      else
        (Inr (PDict
           [(''digest'', PStr (''mock_tx_'' @ str_int now)),
            (''status'', PStr ''success''),
            (''timestamp'', PStr timestamp),
            (''effects'', PDict
               [(''status'', PStr ''success''),
                (''gasUsed'', PDict
                   [(''computationCost'', PStr ''1000''),
                    (''storageCost'', PStr ''500''),
                    (''storageRebate'', PStr ''200'')])])]), w))"

section \<open>The matcher as the specification words it\<close>

text \<open>
  The event's type string: the \<^verbatim>\<open>"type"\<close> field when it holds a string, the empty
  string when the field is absent. A field holding anything else is no type string.
\<close>

definition spec_type_string :: "pydict \<Rightarrow> string option" where
  "spec_type_string event =
     (case map_of event ''type'' of
        None \<Rightarrow> Some []
      | Some (PStr s) \<Rightarrow> Some s
      | Some _ \<Rightarrow> None)"

text \<open>The designated substrings of each category; none for the two that accept all.\<close>

fun spec_substrings :: "EventType \<Rightarrow> string list option" where
  "spec_substrings NFT_TRANSFER = Some [''nft'', ''transfer'']"
| "spec_substrings TOKEN_TRANSFER = Some [''coin'', ''transfer'']"
| "spec_substrings OBJECT_CHANGE = Some [''object'']"
| "spec_substrings EPOCH_CHANGE = Some [''epoch'']"
| "spec_substrings CHECKPOINT = Some [''checkpoint'']"
| "spec_substrings MOVE_EVENT = None"
| "spec_substrings CUSTOM = None"

text \<open>
  The category predicate: the type string contains, case-insensitively, one of the
  category's designated substrings.
\<close>

definition spec_category_predicate :: "EventType \<Rightarrow> pydict \<Rightarrow> bool" where
  "spec_category_predicate cat event =
     (case spec_substrings cat of
        None \<Rightarrow> True
      | Some subs \<Rightarrow>
          (case spec_type_string event of
             None \<Rightarrow> False
           | Some s \<Rightarrow> list_ex (\<lambda>sub. py_in sub (lower s)) subs))"

text \<open>
  Resolving a filter key on the event: a plain key directly; a dotted key by descending one
  path segment at a time, which fails when a segment is missing or the value reached is
  not a dictionary.
\<close>

definition spec_step :: "pyval option \<Rightarrow> string \<Rightarrow> pyval option" where
  "spec_step cur seg = (case cur of Some (PDict d) \<Rightarrow> map_of d seg | _ \<Rightarrow> None)"

definition spec_resolve :: "pydict \<Rightarrow> string \<Rightarrow> pyval option" where
  "spec_resolve event key =
     (if CHR ''.'' \<in> set key then foldl spec_step (Some (PDict event)) (split_dot key)
      else map_of event key)"

definition spec_entry_holds :: "pydict \<Rightarrow> string \<times> pyval \<Rightarrow> bool" where
  "spec_entry_holds event kv =
     (case spec_resolve event (fst kv) of None \<Rightarrow> False | Some x \<Rightarrow> py_eq x (snd kv))"

definition spec_matches :: "pydict \<Rightarrow> EventType \<Rightarrow> pydict \<Rightarrow> bool" where
  "spec_matches event cat filter_map =
     (spec_category_predicate cat event \<and> (\<forall>kv \<in> set filter_map. spec_entry_holds event kv))"


section \<open>The request log\<close>

text \<open>
  The two requests the polling loop makes, as they appear in \<open>rpc_log\<close>, and the relation
  "the log of \<open>w'\<close> is the log of \<open>w\<close> followed by requests taken from \<open>S\<close>".
\<close>

definition head_query :: "string \<times> pyval list" where
  "head_query = (''sui_getLatestCheckpointSequenceNumber'', [])"

definition fetch :: "int \<Rightarrow> string \<times> pyval list" where
  "fetch cp = (''sui_getCheckpointEvents'', [PInt cp])"

definition log_extends :: "world \<Rightarrow> world \<Rightarrow> (string \<times> pyval list) set \<Rightarrow> bool" where
  "log_extends w w' S = (\<exists>new. rpc_log w' = rpc_log w @ new \<and> set new \<subseteq> S)"

section \<open>Example environments\<close>

text \<open>
  Concrete transports and states on which the theorems below are instantiated.
  \<open>config\<close> holds the constants of \<^verbatim>\<open>config.py\<close>. \<open>int_of_number\<close> is \<^verbatim>\<open>int()\<close> where it
  needs no parsing, on an integer or a Boolean; it raises \<^verbatim>\<open>TypeError\<close> on the rest, as
  \<^verbatim>\<open>int()\<close> does on \<^verbatim>\<open>None\<close>, a list or a dictionary. A string, which \<^verbatim>\<open>int()\<close> would
  parse, is not among the results these transports return.
\<close>

definition int_of_number :: "pyval \<Rightarrow> exn + int" where
  "int_of_number v =
     (case v of PInt i \<Rightarrow> Inr i | PBool b \<Rightarrow> Inr (if b then 1 else 0)
      | _ \<Rightarrow> Inl (TypeError ''int() of a value that is not a number''))"

definition config :: "(nat \<Rightarrow> string \<Rightarrow> pyval list \<Rightarrow> response) \<Rightarrow> env" where
  "config transport =
     \<lparr>MAX_RETRIES = 3, RETRY_DELAY = 2, POLLING_INTERVAL = 5,
      net = transport, int_builtin = int_of_number\<rparr>"

definition empty_world :: world where
  "empty_world = \<lparr>rpc_log = [], sleeps = [], waits = [], delivered = []\<rparr>"

text \<open>The first two requests fail, every later one succeeds.\<close>

definition flaky_net :: "nat \<Rightarrow> string \<Rightarrow> pyval list \<Rightarrow> response" where
  "flaky_net i method params =
     (if i < 2 then RequestFailed ''connection reset'' else ResultBody (PInt 42))"

text \<open>Every request fails.\<close>

definition dead_net :: "nat \<Rightarrow> string \<Rightarrow> pyval list \<Rightarrow> response" where
  "dead_net i method params = RequestFailed ''timed out''"

text \<open>The first request fails, the node then answers with an error object.\<close>

definition late_error_net :: "nat \<Rightarrow> string \<Rightarrow> pyval list \<Rightarrow> response" where
  "late_error_net i method params =
     (if i < 1 then RequestFailed ''connection reset''
      else ErrorBody (Some ''Test error'') ''{code: -32000, message: Test error}'')"

text \<open>A client with one subscription and the cursor at \<open>k\<close>.\<close>

definition watching_client :: "int \<Rightarrow> client" where
  "watching_client k =
     \<lparr>private_key = [],
      event_listeners =
        [(''nft_transfer_1700000000_0'',
          \<lparr>event_type = NFT_TRANSFER, callback = ''on_nft'', filter_params = []\<rparr>)],
      event_polling_thread_alive = True,
      last_processed_checkpoint = Some k\<rparr>"

text \<open>
  The head is at 2; the events of checkpoint 2 cannot be fetched, those of any other
  checkpoint are one transfer event.
\<close>

definition events_of_2_down_net :: "nat \<Rightarrow> string \<Rightarrow> pyval list \<Rightarrow> response" where
  "events_of_2_down_net i method params =
     (if method = ''sui_getLatestCheckpointSequenceNumber'' then ResultBody (PInt 2)
      else if params = [PInt 2] then RequestFailed ''timed out''
      else ResultBody (PList [PDict [(''type'', PStr ''nft_transfer'')]]))"

text \<open>The node is unreachable for the first three requests; the head is at 2.\<close>

definition head_down_at_start_net :: "nat \<Rightarrow> string \<Rightarrow> pyval list \<Rightarrow> response" where
  "head_down_at_start_net i method params =
     (if i < 3 then RequestFailed ''timed out''
      else if method = ''sui_getLatestCheckpointSequenceNumber'' then ResultBody (PInt 2)
      else ResultBody (PList []))"

text \<open>The head is at 7 for the first two requests and at 8 afterwards; no events.\<close>

definition head_at_7_net :: "nat \<Rightarrow> string \<Rightarrow> pyval list \<Rightarrow> response" where
  "head_at_7_net i method params =
     (if method = ''sui_getLatestCheckpointSequenceNumber''
      then ResultBody (PInt (if i < 2 then 7 else 8))
      else ResultBody (PList []))"

definition fresh_agent :: agent where
  "fresh_agent =
     \<lparr>event_handlers = [], event_subscriptions = [],
      blockchain_client = BlockchainClient_init None []\<rparr>"

section \<open>Properties of the event matcher\<close>

lemma py_in_single: "py_in [c] s \<longleftrightarrow> c \<in> set s"
  by (auto simp: py_in_def sublist_def in_set_conv_decomp)

lemma spec_step_None: "spec_step None seg = None"
  by (simp add: spec_step_def)

lemma spec_step_Some:
  "spec_step (Some v) seg = (case v of PDict d \<Rightarrow> map_of d seg | _ \<Rightarrow> None)"
  by (cases v) (simp_all add: spec_step_def)

lemma foldl_spec_step_None: "foldl spec_step None parts = None"
  by (induction parts) (simp_all add: spec_step_None)

lemma descend_foldl: "descend v parts = foldl spec_step (Some v) parts"
proof (induction parts arbitrary: v)
  case Nil
  show ?case by simp
next
  case (Cons p ps)
  show ?case
  proof (cases v)
    case (PDict d)
    then show ?thesis
      using Cons by (cases "map_of d p") (simp_all add: spec_step_Some foldl_spec_step_None)
  qed (simp_all add: spec_step_Some foldl_spec_step_None)
qed

lemma filter_entry_spec:
  "spec_entry_holds event (key, val) \<longleftrightarrow>
     (if py_in ''.'' key then
        (case descend (PDict event) (split_dot key) of None \<Rightarrow> False | Some x \<Rightarrow> py_eq x val)
      else map_of event key \<noteq> None \<and> py_eq (the (map_of event key)) val)"
  by (auto simp: spec_entry_holds_def spec_resolve_def py_in_single descend_foldl
      split: option.splits)

lemma filter_loop_Cons:
  "filter_loop event ((key, val) # f) \<longleftrightarrow>
     spec_entry_holds event (key, val) \<and> filter_loop event f"
proof (cases "py_in ''.'' key")
  case True
  then show ?thesis
    by (cases "descend (PDict event) (split_dot key)") (auto simp: filter_entry_spec)
next
  case False
  then show ?thesis
    by (auto simp: filter_entry_spec)
qed

lemma filter_loop_spec:
  "filter_loop event f \<longleftrightarrow> (\<forall>kv \<in> set f. spec_entry_holds event kv)"
proof (induction f)
  case Nil
  show ?case by simp
next
  case (Cons kv f)
  obtain key val where kv: "kv = (key, val)" by (cases kv)
  show ?case
    unfolding kv using Cons by (simp only: filter_loop_Cons) simp
qed

lemma category_check_string:
  "category_check c (PStr s) =
     Inr (case spec_substrings c of None \<Rightarrow> True
          | Some subs \<Rightarrow> list_ex (\<lambda>sub. py_in sub (lower s)) subs)"
  by (cases c) (simp_all add: py_lower_def)

lemma category_check_other:
  "\<forall>s. t \<noteq> PStr s \<Longrightarrow>
   category_check c t =
     (if c = MOVE_EVENT \<or> c = CUSTOM then Inr True else Inl (no_attribute t ''lower''))"
  by (cases c; cases t) (simp_all add: py_lower_def)

lemma event_matches_string:
  "spec_type_string e = Some s \<Longrightarrow> event_matches e c f = Inr (spec_matches e c f)"
  by (auto simp: event_matches_def spec_matches_def spec_category_predicate_def
      spec_type_string_def dict_get_def category_check_string filter_loop_spec
      split: option.splits pyval.splits bool.splits)

lemma event_matches_nonstring:
  assumes "map_of e ''type'' = Some t" and "\<forall>s. t \<noteq> PStr s"
  shows "event_matches e c f =
     (if c = MOVE_EVENT \<or> c = CUSTOM then Inr (filter_loop e f)
      else Inl (no_attribute t ''lower''))"
  using assms by (simp add: event_matches_def dict_get_def category_check_other)

lemma spec_matches_nonstring:
  assumes "map_of e ''type'' = Some t" and "\<forall>s. t \<noteq> PStr s"
  shows "spec_matches e c f \<longleftrightarrow> (c = MOVE_EVENT \<or> c = CUSTOM) \<and> filter_loop e f"
proof -
  have "spec_type_string e = None"
    using assms by (cases t) (simp_all add: spec_type_string_def)
  then show ?thesis
    by (cases c) (simp_all add: spec_matches_def spec_category_predicate_def filter_loop_spec)
qed

lemma type_cases:
  obtains s where "spec_type_string e = Some s"
  | t where "map_of e ''type'' = Some t" and "\<forall>s. t \<noteq> PStr s"
proof (cases "map_of e ''type''")
  case None
  then have "spec_type_string e = Some []" by (simp add: spec_type_string_def)
  then show ?thesis using that by blast
next
  case (Some t)
  show ?thesis
  proof (cases "\<exists>s. t = PStr s")
    case True
    then obtain s where "t = PStr s" by blast
    with Some have "spec_type_string e = Some s" by (simp add: spec_type_string_def)
    then show ?thesis using that by blast
  next
    case False
    with Some show ?thesis using that by blast
  qed
qed

lemma event_matches_True_iff: "event_matches e c f = Inr True \<longleftrightarrow> spec_matches e c f"
proof (cases e rule: type_cases)
  case (1 s)
  then show ?thesis by (simp add: event_matches_string)
next
  case (2 t)
  then show ?thesis
    by (simp add: event_matches_nonstring spec_matches_nonstring)
qed

text \<open>
  C2: the matcher returns true exactly when the category predicate holds on the
  event and every entry of the filter map resolves on the event, plain keys directly and
  dotted keys segment by segment, to a value equal to the expected one. With an empty filter
  map only the category predicate decides, and an entry whose key does not resolve makes
  the match fail.
\<close>

theorem matcher_iff_spec:
  "(event_matches e c f = Inr True \<longleftrightarrow> spec_matches e c f) \<and>
   (event_matches e c [] = Inr True \<longleftrightarrow> spec_category_predicate c e) \<and>
   ((k, v) \<in> set f \<and> spec_resolve e k = None \<longrightarrow> event_matches e c f \<noteq> Inr True)"
proof -
  have a: "event_matches e c f = Inr True \<longleftrightarrow> spec_matches e c f"
    by (rule event_matches_True_iff)
  have b: "event_matches e c [] = Inr True \<longleftrightarrow> spec_category_predicate c e"
    by (simp add: event_matches_True_iff spec_matches_def)
  have c: "(k, v) \<in> set f \<and> spec_resolve e k = None \<longrightarrow> event_matches e c f \<noteq> Inr True"
  proof
    assume h: "(k, v) \<in> set f \<and> spec_resolve e k = None"
    then have "\<not> spec_entry_holds e (k, v)" by (simp add: spec_entry_holds_def)
    with h have "\<not> spec_matches e c f" unfolding spec_matches_def by blast
    then show "event_matches e c f \<noteq> Inr True" by (simp add: event_matches_True_iff)
  qed
  from a b c show ?thesis by blast
qed


theorem matcher_iff_spec_witness:
  "spec_matches [(''data'', PDict [(''nested'', PDict [(''value'', PInt 100)])])] CUSTOM
     [(''data.nested.value'', PInt 100)] \<and>
   spec_category_predicate NFT_TRANSFER [(''type'', PStr ''NFT_Minted'')] \<and>
   event_matches [(''data'', PDict [(''nested'', PDict [(''value'', PInt 100)])])] CUSTOM
     [(''data.nested.missing'', PInt 100)] \<noteq> Inr True"
proof -
  let ?e = "[(''data'', PDict [(''nested'', PDict [(''value'', PInt 100)])])]"
  have 1: "event_matches ?e CUSTOM [(''data.nested.value'', PInt 100)] = Inr True"
    by code_simp
  have 2: "event_matches [(''type'', PStr ''NFT_Minted'')] NFT_TRANSFER [] = Inr True"
    by code_simp
  have 3: "(''data.nested.missing'', PInt 100) \<in> set [(''data.nested.missing'', PInt 100)]
      \<and> spec_resolve ?e ''data.nested.missing'' = None"
    by code_simp
  show ?thesis
    using 1 2 3
      matcher_iff_spec [where e = ?e and c = CUSTOM
        and f = "[(''data.nested.value'', PInt 100)]"]
      matcher_iff_spec [where e = "[(''type'', PStr ''NFT_Minted'')]" and c = NFT_TRANSFER]
      matcher_iff_spec [where e = ?e and c = CUSTOM and k = "''data.nested.missing''"
        and v = "PInt 100" and f = "[(''data.nested.missing'', PInt 100)]"]
    by blast
qed

text \<open>
  C5: the event \<^verbatim>\<open>{"type": "nft_transfer"}\<close> with an empty filter map matches
  \<open>NFT_TRANSFER\<close>, and it matches \<open>TOKEN_TRANSFER\<close> as well: its type contains
  \<^verbatim>\<open>"transfer"\<close>, one of the two substrings that category accepts.
\<close>

theorem nft_transfer_event_categories:
  "event_matches [(''type'', PStr ''nft_transfer'')] NFT_TRANSFER [] = Inr True \<and>
   event_matches [(''type'', PStr ''nft_transfer'')] TOKEN_TRANSFER [] = Inr True"
  by code_simp

text \<open>
  C10: the matcher returns a Boolean for every event whose \<^verbatim>\<open>"type"\<close> field is
  absent or holds a string, whatever the category and the filter map; \<open>MOVE_EVENT\<close> and
  \<open>CUSTOM\<close> return a Boolean for every event. When the field holds a value that is not a
  string, every other category raises \<^verbatim>\<open>AttributeError\<close> on \<^verbatim>\<open>lower\<close>, so there are
  events and categories on which the matcher faults.
\<close>

theorem matcher_total_on_string_type:
  "((map_of e ''type'' = None \<or> (\<exists>s. map_of e ''type'' = Some (PStr s)))
      \<longrightarrow> (\<exists>b. event_matches e c f = Inr b)) \<and>
   (c = MOVE_EVENT \<or> c = CUSTOM \<longrightarrow> (\<exists>b. event_matches e c f = Inr b)) \<and>
   (map_of e ''type'' = Some t \<and> (\<forall>s. t \<noteq> PStr s) \<and> c \<noteq> MOVE_EVENT \<and> c \<noteq> CUSTOM
      \<longrightarrow> event_matches e c f = Inl (no_attribute t ''lower'')) \<and>
   (\<exists>e' c' x. c' \<noteq> MOVE_EVENT \<and> c' \<noteq> CUSTOM \<and> event_matches e' c' f = Inl x)"
proof -
  have a: "(map_of e ''type'' = None \<or> (\<exists>s. map_of e ''type'' = Some (PStr s)))
      \<longrightarrow> (\<exists>b. event_matches e c f = Inr b)"
  proof
    assume "map_of e ''type'' = None \<or> (\<exists>s. map_of e ''type'' = Some (PStr s))"
    then obtain s where "spec_type_string e = Some s"
      by (auto simp: spec_type_string_def)
    then show "\<exists>b. event_matches e c f = Inr b"
      by (simp add: event_matches_string)
  qed
  have b: "c = MOVE_EVENT \<or> c = CUSTOM \<longrightarrow> (\<exists>b. event_matches e c f = Inr b)"
    by (auto simp: event_matches_def)
  have c: "map_of e ''type'' = Some t \<and> (\<forall>s. t \<noteq> PStr s) \<and> c \<noteq> MOVE_EVENT \<and> c \<noteq> CUSTOM
      \<longrightarrow> event_matches e c f = Inl (no_attribute t ''lower'')"
    by (simp add: event_matches_nonstring)
  have "event_matches [(''type'', PInt 7)] CHECKPOINT f = Inl (no_attribute (PInt 7) ''lower'')"
    by (simp add: event_matches_nonstring)
  then have d: "\<exists>e' c' x. c' \<noteq> MOVE_EVENT \<and> c' \<noteq> CUSTOM \<and> event_matches e' c' f = Inl x"
    by blast
  from a b c d show ?thesis by blast
qed

theorem matcher_total_on_string_type_witness:
  "(\<exists>b. event_matches [(''amount'', PInt 5)] EPOCH_CHANGE [(''amount'', PInt 5)] = Inr b) \<and>
   (\<exists>b. event_matches [(''type'', PStr ''Epoch'')] EPOCH_CHANGE [] = Inr b) \<and>
   (\<exists>b. event_matches [(''type'', PInt 7)] MOVE_EVENT [] = Inr b) \<and>
   event_matches [(''type'', PInt 7)] OBJECT_CHANGE [] = Inl (no_attribute (PInt 7) ''lower'')"
proof -
  have 1: "map_of [(''amount'', PInt 5)] ''type'' = None" by simp
  have 2: "map_of [(''type'', PStr ''Epoch'')] ''type'' = Some (PStr ''Epoch'')" by simp
  have 3: "map_of [(''type'', PInt 7)] ''type'' = Some (PInt 7) \<and> (\<forall>s. PInt 7 \<noteq> PStr s)
      \<and> OBJECT_CHANGE \<noteq> MOVE_EVENT \<and> OBJECT_CHANGE \<noteq> CUSTOM" by simp
  show ?thesis
    using 1 2 3
      matcher_total_on_string_type [where e = "[(''amount'', PInt 5)]" and c = EPOCH_CHANGE
        and f = "[(''amount'', PInt 5)]"]
      matcher_total_on_string_type [where e = "[(''type'', PStr ''Epoch'')]"
        and c = EPOCH_CHANGE and f = "[]"]
      matcher_total_on_string_type [where e = "[(''type'', PInt 7)]" and c = MOVE_EVENT
        and f = "[]"]
      matcher_total_on_string_type [where e = "[(''type'', PInt 7)]" and c = OBJECT_CHANGE
        and f = "[]" and t = "PInt 7"]
    by blast
qed

text \<open>
  C6, as stated, fails: the filter \<^verbatim>\<open>{"data.flag": 1}\<close> expects an integer, the leaf
  of the event \<^verbatim>\<open>{"data": {"flag": true}}\<close> is a Boolean, and the matcher returns true.
\<close>

theorem dotted_leaf_other_type_matches:
  "descend (PDict [(''data'', PDict [(''flag'', PBool True)])]) (split_dot ''data.flag'')
     = Some (PBool True) \<and>
   type_name (PBool True) \<noteq> type_name (PInt 1) \<and>
   event_matches [(''data'', PDict [(''flag'', PBool True)])] CUSTOM [(''data.flag'', PInt 1)]
     = Inr True"
  by code_simp

lemma py_eq_scalar:
  "py_eq (PStr s) y \<longleftrightarrow> y = PStr s"
  "py_eq PNone y \<longleftrightarrow> y = PNone"
  "py_eq (PInt i) y \<longleftrightarrow> y = PInt i \<or> (\<exists>b. y = PBool b \<and> i = (if b then 1 else 0))"
  "py_eq (PBool b) y \<longleftrightarrow> y = PBool b \<or> y = PInt (if b then 1 else 0)"
  by (cases y; auto)+

text \<open>
  C6, amended: for a filter entry with a dotted key the match succeeds only if the
  path resolves to a value that equals the expected value under Python's \<^verbatim>\<open>==\<close>. A
  string or \<^verbatim>\<open>None\<close> equals only itself, so a string never matches a number; a Boolean
  and an integer are equal when they are numerically equal (\<^verbatim>\<open>True\<close> and 1, \<^verbatim>\<open>False\<close>
  and 0).
\<close>

theorem dotted_leaf_python_equality:
  assumes "py_in ''.'' k"
  shows "event_matches e CUSTOM [(k, v)] =
           Inr (case descend (PDict e) (split_dot k) of None \<Rightarrow> False | Some x \<Rightarrow> py_eq x v) \<and>
         ((k, v) \<in> set f \<and> event_matches e c f = Inr True \<longrightarrow>
           (\<exists>x. descend (PDict e) (split_dot k) = Some x \<and> py_eq x v)) \<and>
         (py_eq (PStr s) y \<longleftrightarrow> y = PStr s) \<and>
         (py_eq PNone y \<longleftrightarrow> y = PNone) \<and>
         (py_eq (PInt i) y \<longleftrightarrow> y = PInt i \<or> (\<exists>b. y = PBool b \<and> i = (if b then 1 else 0))) \<and>
         (py_eq (PBool b) y \<longleftrightarrow> y = PBool b \<or> y = PInt (if b then 1 else 0))"
proof -
  have 1: "event_matches e CUSTOM [(k, v)] =
      Inr (case descend (PDict e) (split_dot k) of None \<Rightarrow> False | Some x \<Rightarrow> py_eq x v)"
    using assms by (simp add: event_matches_def split: option.splits)
  have 2: "(k, v) \<in> set f \<and> event_matches e c f = Inr True \<longrightarrow>
      (\<exists>x. descend (PDict e) (split_dot k) = Some x \<and> py_eq x v)"
  proof
    assume h: "(k, v) \<in> set f \<and> event_matches e c f = Inr True"
    then have "spec_matches e c f" by (simp add: event_matches_True_iff)
    with h have "spec_entry_holds e (k, v)" unfolding spec_matches_def by blast
    then show "\<exists>x. descend (PDict e) (split_dot k) = Some x \<and> py_eq x v"
      using assms by (simp add: filter_entry_spec split: option.splits)
  qed
  have 3: "py_eq (PStr s) y \<longleftrightarrow> y = PStr s"
    by (rule py_eq_scalar)
  have 4: "py_eq PNone y \<longleftrightarrow> y = PNone"
    by (rule py_eq_scalar)
  have 5: "py_eq (PInt i) y \<longleftrightarrow> y = PInt i \<or> (\<exists>b. y = PBool b \<and> i = (if b then 1 else 0))"
    by (rule py_eq_scalar)
  have 6: "py_eq (PBool b) y \<longleftrightarrow> y = PBool b \<or> y = PInt (if b then 1 else 0)"
    by (rule py_eq_scalar)
  from 1 2 3 4 5 6 show ?thesis by blast
qed

theorem dotted_leaf_python_equality_witness:
  "py_in ''.'' ''data.amount'' \<and>
   event_matches [(''data'', PDict [(''amount'', PInt 100)])] CUSTOM
     [(''data.amount'', PStr ''100'')] = Inr False \<and>
   event_matches [(''data'', PDict [(''amount'', PInt 100)])] CUSTOM
     [(''data.amount'', PInt 100)] = Inr True"
proof -
  have h: "py_in ''.'' ''data.amount''" by code_simp
  have 1: "(case descend (PDict [(''data'', PDict [(''amount'', PInt 100)])])
             (split_dot ''data.amount'') of None \<Rightarrow> False | Some x \<Rightarrow> py_eq x (PStr ''100''))
           = False"
    by code_simp
  have 2: "(case descend (PDict [(''data'', PDict [(''amount'', PInt 100)])])
             (split_dot ''data.amount'') of None \<Rightarrow> False | Some x \<Rightarrow> py_eq x (PInt 100))
           = True"
    by code_simp
  show ?thesis
    using h 1 2
      dotted_leaf_python_equality [OF h, where e = "[(''data'', PDict [(''amount'', PInt 100)])]"
        and v = "PStr ''100''"]
      dotted_leaf_python_equality [OF h, where e = "[(''data'', PDict [(''amount'', PInt 100)])]"
        and v = "PInt 100"]
    by simp
qed

section \<open>Properties of the transport and the gateway\<close>

lemma rpc_retry_loop_result:
  assumes "retry_count < MAX_RETRIES cfg"
    and "net cfg (length (rpc_log w)) m p = ResultBody v"
  shows "rpc_retry_loop cfg m p retry_count w = (Inr v, w\<lparr>rpc_log := rpc_log w @ [(m, p)]\<rparr>)"
  using assms by (subst rpc_retry_loop.simps) simp

lemma rpc_retry_loop_error:
  assumes "retry_count < MAX_RETRIES cfg"
    and "net cfg (length (rpc_log w)) m p = ErrorBody msg repr"
  shows "rpc_retry_loop cfg m p retry_count w =
     (Inl (BlockchainError (''RPC error: '' @ (case msg of Some x \<Rightarrow> x | None \<Rightarrow> repr))),
      w\<lparr>rpc_log := rpc_log w @ [(m, p)]\<rparr>)"
  using assms by (subst rpc_retry_loop.simps) simp

lemma rpc_retry_loop_retry:
  assumes "retry_count + 1 < MAX_RETRIES cfg"
    and "net cfg (length (rpc_log w)) m p = RequestFailed e"
  shows "rpc_retry_loop cfg m p retry_count w =
     rpc_retry_loop cfg m p (retry_count + 1)
       (w\<lparr>rpc_log := rpc_log w @ [(m, p)], sleeps := sleeps w @ [RETRY_DELAY cfg]\<rparr>)"
  using assms by (subst rpc_retry_loop.simps) simp

lemma rpc_retry_loop_exhausted:
  assumes "retry_count < MAX_RETRIES cfg" and "MAX_RETRIES cfg \<le> retry_count + 1"
    and "net cfg (length (rpc_log w)) m p = RequestFailed e"
  shows "rpc_retry_loop cfg m p retry_count w =
     (Inl (BlockchainError (''Failed to make RPC call after '' @ str_int (MAX_RETRIES cfg)
              @ '' retries: '' @ e)),
      w\<lparr>rpc_log := rpc_log w @ [(m, p)]\<rparr>)"
  using assms by (subst rpc_retry_loop.simps) simp

lemma rpc_retry_loop_no_budget:
  "\<not> retry_count < MAX_RETRIES cfg \<Longrightarrow> rpc_retry_loop cfg m p retry_count w = (Inr PNone, w)"
  by (subst rpc_retry_loop.simps) simp

lemma rpc_retry_loop_all_fail:
  assumes "retry_count < MAX_RETRIES cfg"
    and "int k = MAX_RETRIES cfg - retry_count - 1"
    and "\<forall>i \<le> k. \<exists>e. net cfg (length (rpc_log w) + i) m p = RequestFailed e"
    and "net cfg (length (rpc_log w) + k) m p = RequestFailed e_last"
  shows "rpc_retry_loop cfg m p retry_count w =
     (Inl (BlockchainError (''Failed to make RPC call after '' @ str_int (MAX_RETRIES cfg)
              @ '' retries: '' @ e_last)),
      w\<lparr>rpc_log := rpc_log w @ replicate (Suc k) (m, p),
        sleeps := sleeps w @ replicate k (RETRY_DELAY cfg)\<rparr>)"
  using assms
proof (induction k arbitrary: retry_count w)
  case 0
  then show ?case
    by (simp add: rpc_retry_loop_exhausted)
next
  case (Suc k)
  from Suc.prems(3) have "\<exists>e. net cfg (length (rpc_log w) + 0) m p = RequestFailed e"
    by blast
  then obtain e where e: "net cfg (length (rpc_log w)) m p = RequestFailed e"
    by auto
  let ?w = "w\<lparr>rpc_log := rpc_log w @ [(m, p)], sleeps := sleeps w @ [RETRY_DELAY cfg]\<rparr>"
  have step: "rpc_retry_loop cfg m p retry_count w = rpc_retry_loop cfg m p (retry_count + 1) ?w"
    using Suc.prems(1,2) e by (intro rpc_retry_loop_retry) simp_all
  have a: "retry_count + 1 < MAX_RETRIES cfg" using Suc.prems(2) by simp
  have b: "int k = MAX_RETRIES cfg - (retry_count + 1) - 1" using Suc.prems(2) by simp
  have c: "\<forall>i \<le> k. \<exists>e. net cfg (length (rpc_log ?w) + i) m p = RequestFailed e"
  proof (intro allI impI)
    fix i assume "i \<le> k"
    then have "Suc i \<le> Suc k" by simp
    with Suc.prems(3) have "\<exists>e. net cfg (length (rpc_log w) + Suc i) m p = RequestFailed e"
      by blast
    then show "\<exists>e. net cfg (length (rpc_log ?w) + i) m p = RequestFailed e"
      by simp
  qed
  have d: "net cfg (length (rpc_log ?w) + k) m p = RequestFailed e_last"
    using Suc.prems(4) by simp
  have "rpc_retry_loop cfg m p (retry_count + 1) ?w =
     (Inl (BlockchainError (''Failed to make RPC call after '' @ str_int (MAX_RETRIES cfg)
              @ '' retries: '' @ e_last)),
      ?w\<lparr>rpc_log := rpc_log ?w @ replicate (Suc k) (m, p),
        sleeps := sleeps ?w @ replicate k (RETRY_DELAY cfg)\<rparr>)"
    by (rule Suc.IH [OF a b c d])
  with step show ?case
    by (simp add: replicate_app_Cons_same)
qed


text \<open>
  C3: a network-level failure is retried with a sleep of \<open>RETRY_DELAY\<close> before each
  new attempt. When two consecutive attempts fail and the third succeeds, with at least
  three attempts allowed, the call returns the result after exactly three requests and two
  sleeps. When every attempt fails, the call raises a \<^verbatim>\<open>BlockchainError\<close> naming the
  attempt count and the last failure, after exactly \<open>MAX_RETRIES\<close> requests.
\<close>

theorem transport_retry:
  "(3 \<le> MAX_RETRIES cfg \<and>
    net cfg (length (rpc_log w)) m p = RequestFailed e1 \<and>
    net cfg (length (rpc_log w) + 1) m p = RequestFailed e2 \<and>
    net cfg (length (rpc_log w) + 2) m p = ResultBody v
    \<longrightarrow> make_rpc_call cfg m p w =
          (Inr v, w\<lparr>rpc_log := rpc_log w @ [(m, p), (m, p), (m, p)],
                    sleeps := sleeps w @ [RETRY_DELAY cfg, RETRY_DELAY cfg]\<rparr>)) \<and>
   (1 \<le> MAX_RETRIES cfg \<and>
    (\<forall>i < nat (MAX_RETRIES cfg). \<exists>e. net cfg (length (rpc_log w) + i) m p = RequestFailed e) \<and>
    net cfg (length (rpc_log w) + (nat (MAX_RETRIES cfg) - 1)) m p = RequestFailed e_last
    \<longrightarrow> make_rpc_call cfg m p w =
          (Inl (BlockchainError (''Failed to make RPC call after ''
                  @ str_int (MAX_RETRIES cfg) @ '' retries: '' @ e_last)),
           w\<lparr>rpc_log := rpc_log w @ replicate (nat (MAX_RETRIES cfg)) (m, p),
             sleeps := sleeps w @ replicate (nat (MAX_RETRIES cfg) - 1) (RETRY_DELAY cfg)\<rparr>))"
proof (intro conjI impI)
  assume h: "3 \<le> MAX_RETRIES cfg \<and>
    net cfg (length (rpc_log w)) m p = RequestFailed e1 \<and>
    net cfg (length (rpc_log w) + 1) m p = RequestFailed e2 \<and>
    net cfg (length (rpc_log w) + 2) m p = ResultBody v"
  let ?w1 = "w\<lparr>rpc_log := rpc_log w @ [(m, p)], sleeps := sleeps w @ [RETRY_DELAY cfg]\<rparr>"
  let ?w2 = "?w1\<lparr>rpc_log := rpc_log ?w1 @ [(m, p)], sleeps := sleeps ?w1 @ [RETRY_DELAY cfg]\<rparr>"
  have 1: "rpc_retry_loop cfg m p 0 w = rpc_retry_loop cfg m p (0 + 1) ?w1"
    using h by (intro rpc_retry_loop_retry) simp_all
  have 2: "rpc_retry_loop cfg m p (0 + 1) ?w1 = rpc_retry_loop cfg m p (0 + 1 + 1) ?w2"
    using h by (intro rpc_retry_loop_retry) simp_all
  have 3: "rpc_retry_loop cfg m p (0 + 1 + 1) ?w2 =
      (Inr v, ?w2\<lparr>rpc_log := rpc_log ?w2 @ [(m, p)]\<rparr>)"
    using h by (intro rpc_retry_loop_result) simp_all
  show "make_rpc_call cfg m p w =
      (Inr v, w\<lparr>rpc_log := rpc_log w @ [(m, p), (m, p), (m, p)],
                sleeps := sleeps w @ [RETRY_DELAY cfg, RETRY_DELAY cfg]\<rparr>)"
    unfolding make_rpc_call_def by (simp only: 1 2 3) simp
next
  assume h: "1 \<le> MAX_RETRIES cfg \<and>
    (\<forall>i < nat (MAX_RETRIES cfg). \<exists>e. net cfg (length (rpc_log w) + i) m p = RequestFailed e) \<and>
    net cfg (length (rpc_log w) + (nat (MAX_RETRIES cfg) - 1)) m p = RequestFailed e_last"
  define k where "k = nat (MAX_RETRIES cfg) - 1"
  from h have ge: "1 \<le> MAX_RETRIES cfg" by blast
  have a: "(0::int) < MAX_RETRIES cfg" using ge by simp
  have b: "int k = MAX_RETRIES cfg - 0 - 1" unfolding k_def using ge by linarith
  have c: "\<forall>i \<le> k. \<exists>e. net cfg (length (rpc_log w) + i) m p = RequestFailed e"
  proof (intro allI impI)
    fix i assume "i \<le> k"
    then have "i < nat (MAX_RETRIES cfg)" unfolding k_def using ge by linarith
    with h show "\<exists>e. net cfg (length (rpc_log w) + i) m p = RequestFailed e" by blast
  qed
  have d: "net cfg (length (rpc_log w) + k) m p = RequestFailed e_last"
    using h by (simp add: k_def)
  have "Suc k = nat (MAX_RETRIES cfg)" unfolding k_def using ge by linarith
  then show "make_rpc_call cfg m p w =
      (Inl (BlockchainError (''Failed to make RPC call after ''
              @ str_int (MAX_RETRIES cfg) @ '' retries: '' @ e_last)),
       w\<lparr>rpc_log := rpc_log w @ replicate (nat (MAX_RETRIES cfg)) (m, p),
         sleeps := sleeps w @ replicate (nat (MAX_RETRIES cfg) - 1) (RETRY_DELAY cfg)\<rparr>)"
    unfolding make_rpc_call_def
    using rpc_retry_loop_all_fail [OF a b c d] by (simp add: k_def)
qed

theorem transport_retry_witness:
  "make_rpc_call (config flaky_net) ''sui_getObject'' [PStr ''0x2''] empty_world =
     (Inr (PInt 42),
      empty_world\<lparr>rpc_log := replicate 3 (''sui_getObject'', [PStr ''0x2'']),
                  sleeps := [2, 2]\<rparr>) \<and>
   make_rpc_call (config dead_net) ''sui_getObject'' [PStr ''0x2''] empty_world =
     (Inl (BlockchainError ''Failed to make RPC call after 3 retries: timed out''),
      empty_world\<lparr>rpc_log := replicate 3 (''sui_getObject'', [PStr ''0x2'']),
                  sleeps := [2, 2]\<rparr>)"
proof -
  have 1: "3 \<le> MAX_RETRIES (config flaky_net) \<and>
      net (config flaky_net) (length (rpc_log empty_world)) ''sui_getObject'' [PStr ''0x2'']
        = RequestFailed ''connection reset'' \<and>
      net (config flaky_net) (length (rpc_log empty_world) + 1) ''sui_getObject'' [PStr ''0x2'']
        = RequestFailed ''connection reset'' \<and>
      net (config flaky_net) (length (rpc_log empty_world) + 2) ''sui_getObject'' [PStr ''0x2'']
        = ResultBody (PInt 42)"
    by (simp add: config_def flaky_net_def empty_world_def)
  have 2: "1 \<le> MAX_RETRIES (config dead_net) \<and>
      (\<forall>i < nat (MAX_RETRIES (config dead_net)).
         \<exists>e. net (config dead_net) (length (rpc_log empty_world) + i) ''sui_getObject''
                [PStr ''0x2''] = RequestFailed e) \<and>
      net (config dead_net) (length (rpc_log empty_world) + (nat (MAX_RETRIES (config dead_net)) - 1))
        ''sui_getObject'' [PStr ''0x2''] = RequestFailed ''timed out''"
    by (simp add: config_def dead_net_def empty_world_def)
  have 3: "str_int 3 = ''3''" by code_simp
  have 4: "replicate (nat 3) x = [x, x, x]" for x :: "string \<times> pyval list"
    by (simp add: numeral_3_eq_3)
  show ?thesis
    using 1 2
      transport_retry [where cfg = "config flaky_net" and w = empty_world
        and m = "''sui_getObject''" and p = "[PStr ''0x2'']"
        and ?e1.0 = "''connection reset''" and ?e2.0 = "''connection reset''" and v = "PInt 42"]
      transport_retry [where cfg = "config dead_net" and w = empty_world
        and m = "''sui_getObject''" and p = "[PStr ''0x2'']" and e_last = "''timed out''"]
    by (simp add: 3 4 config_def empty_world_def numeral_3_eq_3 numeral_2_eq_2)
qed

text \<open>
  C4: a well-formed response that carries an error object ends the call at once,
  whatever the number of attempts left: one request is made, none is repeated, there is no
  sleep, and the \<^verbatim>\<open>BlockchainError\<close> raised carries the remote message.
\<close>

theorem remote_error_not_retried:
  assumes "retry_count < MAX_RETRIES cfg"
    and "net cfg (length (rpc_log w)) m p = ErrorBody (Some msg) repr"
  shows "rpc_retry_loop cfg m p retry_count w =
           (Inl (BlockchainError (''RPC error: '' @ msg)),
            w\<lparr>rpc_log := rpc_log w @ [(m, p)]\<rparr>) \<and>
         (retry_count = 0 \<longrightarrow>
            make_rpc_call cfg m p w =
              (Inl (BlockchainError (''RPC error: '' @ msg)),
               w\<lparr>rpc_log := rpc_log w @ [(m, p)]\<rparr>))"
proof -
  have "rpc_retry_loop cfg m p retry_count w =
      (Inl (BlockchainError (''RPC error: '' @ msg)), w\<lparr>rpc_log := rpc_log w @ [(m, p)]\<rparr>)"
    using assms by (subst rpc_retry_loop.simps) simp
  then show ?thesis
    unfolding make_rpc_call_def by blast
qed

theorem remote_error_not_retried_witness:
  "make_rpc_call (config late_error_net) ''sui_getObject'' [] empty_world =
     (Inl (BlockchainError ''RPC error: Test error''),
      empty_world\<lparr>rpc_log := [(''sui_getObject'', []), (''sui_getObject'', [])],
                  sleeps := [2]\<rparr>)"
proof -
  let ?w = "empty_world\<lparr>rpc_log := [(''sui_getObject'', [])], sleeps := [2]\<rparr>"
  have step: "make_rpc_call (config late_error_net) ''sui_getObject'' [] empty_world =
      rpc_retry_loop (config late_error_net) ''sui_getObject'' [] 1 ?w"
    unfolding make_rpc_call_def
    by (subst rpc_retry_loop.simps)
      (simp add: config_def late_error_net_def empty_world_def)
  have h1: "1 < MAX_RETRIES (config late_error_net)" by (simp add: config_def)
  have h2: "net (config late_error_net) (length (rpc_log ?w)) ''sui_getObject'' [] =
      ErrorBody (Some ''Test error'') ''{code: -32000, message: Test error}''"
    by (simp add: config_def late_error_net_def empty_world_def)
  show ?thesis
    using remote_error_not_retried [OF h1 h2] step
    by (simp add: empty_world_def)
qed

text \<open>
  C8: without a private key \<^verbatim>\<open>execute_transaction\<close> raises a
  \<^verbatim>\<open>BlockchainError\<close> and leaves the world as it was: no request, no sleep. With a key the
  guard is passed and a result is returned.
\<close>

theorem execute_transaction_needs_key:
  "(private_key c = [] \<longrightarrow>
      execute_transaction c tx_data now ts w =
        (Inl (BlockchainError ''Private key not set. Cannot execute transactions.''), w)) \<and>
   (private_key c \<noteq> [] \<longrightarrow>
      (\<exists>r. execute_transaction c tx_data now ts w = (Inr r, w)))"
  by (simp add: execute_transaction_def)

theorem execute_transaction_needs_key_witness:
  "execute_transaction (BlockchainClient_init None []) [(''kind'', PStr ''pay'')] 1700000000
     ''2023-11-14T22:13:20'' empty_world =
     (Inl (BlockchainError ''Private key not set. Cannot execute transactions.''), empty_world) \<and>
   (\<exists>r. execute_transaction (BlockchainClient_init (Some ''test_private_key'') [])
          [(''kind'', PStr ''pay'')] 1700000000 ''2023-11-14T22:13:20'' empty_world
        = (Inr r, empty_world))"
proof -
  have 1: "private_key (BlockchainClient_init None []) = []"
    by (simp add: BlockchainClient_init_def)
  have 2: "private_key (BlockchainClient_init (Some ''test_private_key'') []) \<noteq> []"
    by (simp add: BlockchainClient_init_def)
  show ?thesis
    using 1 2
      execute_transaction_needs_key [where c = "BlockchainClient_init None []"
        and tx_data = "[(''kind'', PStr ''pay'')]" and now = 1700000000
        and ts = "''2023-11-14T22:13:20''" and w = empty_world]
      execute_transaction_needs_key
        [where c = "BlockchainClient_init (Some ''test_private_key'') []"
        and tx_data = "[(''kind'', PStr ''pay'')]" and now = 1700000000
        and ts = "''2023-11-14T22:13:20''" and w = empty_world]
    by blast
qed

section \<open>Properties of the polling loop\<close>

text \<open>
  C1, as stated, fails: with the cursor at 0 and the head at 2, the event fetch for checkpoint 2
  fails on every attempt, and the cycle still ends with the cursor at 2, not at 1.
\<close>

theorem cursor_passes_failed_fetch:
  "fst (make_rpc_call (config events_of_2_down_net) ''sui_getCheckpointEvents'' [PInt 2]
          empty_world)
     = Inl (BlockchainError ''Failed to make RPC call after 3 retries: timed out'') \<and>
   last_processed_checkpoint (watching_client 0) = Some 0 \<and>
   last_processed_checkpoint
     (fst (poll_cycle (config events_of_2_down_net) (watching_client 0) empty_world)) = Some 2"
  by code_simp

lemma process_events_empty: "process_events ls (PList []) w = (Inr (), w)"
  by (simp add: process_events_def)

lemma get_events_by_checkpoint_failed:
  assumes "fst (make_rpc_call cfg ''sui_getCheckpointEvents'' [PInt cp] w) = Inl e"
  shows "get_events_by_checkpoint cfg cp w =
           (PList [], snd (make_rpc_call cfg ''sui_getCheckpointEvents'' [PInt cp] w))"
  using assms
  by (cases "make_rpc_call cfg ''sui_getCheckpointEvents'' [PInt cp] w")
     (simp add: get_events_by_checkpoint_def)

lemma poll_checkpoints_failed_fetch:
  assumes "fst (make_rpc_call cfg ''sui_getCheckpointEvents'' [PInt cp] w) = Inl e"
  shows "poll_checkpoints cfg (cp # rest) c w =
           poll_checkpoints cfg rest (c\<lparr>last_processed_checkpoint := Some cp\<rparr>)
             (snd (make_rpc_call cfg ''sui_getCheckpointEvents'' [PInt cp] w))"
  by (simp add: get_events_by_checkpoint_failed [OF assms] process_events_empty)

lemma poll_checkpoints_completed:
  "poll_checkpoints cfg cps c w = (Inr u, c', w') \<Longrightarrow> cps \<noteq> [] \<Longrightarrow>
   last_processed_checkpoint c' = Some (last cps)"
proof (induction cps arbitrary: c w)
  case Nil
  then show ?case by simp
next
  case (Cons cp rest)
  obtain events w1 where ev: "get_events_by_checkpoint cfg cp w = (events, w1)"
    by (cases "get_events_by_checkpoint cfg cp w")
  obtain r w2 where pe: "process_events (event_listeners c) events w1 = (r, w2)"
    by (cases "process_events (event_listeners c) events w1")
  show ?case
  proof (cases r)
    case (Inl e)
    with Cons.prems ev pe show ?thesis by simp
  next
    case (Inr u')
    with Cons.prems ev pe have rec:
      "poll_checkpoints cfg rest (c\<lparr>last_processed_checkpoint := Some cp\<rparr>) w2 = (Inr u, c', w')"
      by simp
    show ?thesis
    proof (cases "rest = []")
      case True
      with rec show ?thesis by auto
    next
      case False
      with Cons.IH [OF rec] show ?thesis by simp
    qed
  qed
qed

lemma poll_cycle_latest_failed:
  "fst (get_latest_checkpoint cfg w) = Inl e \<Longrightarrow> fst (poll_cycle cfg c w) = c"
  by (cases "get_latest_checkpoint cfg w") (simp add: poll_cycle_def)

text \<open>
  C1, amended: when the query for the latest checkpoint fails, the cycle leaves the cursor
  where it was. A failed event fetch does not stop the cycle: \<^verbatim>\<open>get_events_by_checkpoint\<close>
  returns the empty list, nothing is dispatched, the cursor is set to that checkpoint and
  the loop goes on with the next one; a range walked without a dispatch fault ends with the
  cursor on its last checkpoint.
\<close>

theorem failed_event_fetch_is_passed:
  "(fst (get_latest_checkpoint cfg w) = Inl e \<longrightarrow> fst (poll_cycle cfg c w) = c) \<and>
   (fst (make_rpc_call cfg ''sui_getCheckpointEvents'' [PInt cp] w) = Inl e' \<longrightarrow>
      get_events_by_checkpoint cfg cp w =
        (PList [], snd (make_rpc_call cfg ''sui_getCheckpointEvents'' [PInt cp] w)) \<and>
      poll_checkpoints cfg (cp # rest) c w =
        poll_checkpoints cfg rest (c\<lparr>last_processed_checkpoint := Some cp\<rparr>)
          (snd (make_rpc_call cfg ''sui_getCheckpointEvents'' [PInt cp] w))) \<and>
   (poll_checkpoints cfg cps c w = (Inr u, c', w') \<and> cps \<noteq> [] \<longrightarrow>
      last_processed_checkpoint c' = Some (last cps))"
proof (intro conjI impI)
  assume "fst (get_latest_checkpoint cfg w) = Inl e"
  then show "fst (poll_cycle cfg c w) = c"
    by (rule poll_cycle_latest_failed)
next
  assume "fst (make_rpc_call cfg ''sui_getCheckpointEvents'' [PInt cp] w) = Inl e'"
  then show "get_events_by_checkpoint cfg cp w =
      (PList [], snd (make_rpc_call cfg ''sui_getCheckpointEvents'' [PInt cp] w))"
    by (rule get_events_by_checkpoint_failed)
next
  assume "fst (make_rpc_call cfg ''sui_getCheckpointEvents'' [PInt cp] w) = Inl e'"
  then show "poll_checkpoints cfg (cp # rest) c w =
      poll_checkpoints cfg rest (c\<lparr>last_processed_checkpoint := Some cp\<rparr>)
        (snd (make_rpc_call cfg ''sui_getCheckpointEvents'' [PInt cp] w))"
    by (rule poll_checkpoints_failed_fetch)
next
  assume "poll_checkpoints cfg cps c w = (Inr u, c', w') \<and> cps \<noteq> []"
  then show "last_processed_checkpoint c' = Some (last cps)"
    using poll_checkpoints_completed by blast
qed


theorem failed_event_fetch_is_passed_witness:
  "fst (poll_cycle (config dead_net) (watching_client 4) empty_world) = watching_client 4 \<and>
   poll_checkpoints (config events_of_2_down_net) [2] (watching_client 1) empty_world =
     poll_checkpoints (config events_of_2_down_net) []
       ((watching_client 1)\<lparr>last_processed_checkpoint := Some 2\<rparr>)
       (snd (make_rpc_call (config events_of_2_down_net) ''sui_getCheckpointEvents'' [PInt 2]
               empty_world)) \<and>
   last_processed_checkpoint
     (fst (snd (poll_checkpoints (config events_of_2_down_net) [1, 2] (watching_client 0)
                  empty_world))) = Some 2"
proof -
  have h1: "fst (get_latest_checkpoint (config dead_net) empty_world) =
      Inl (BlockchainError
        ''Failed to get latest checkpoint: Failed to make RPC call after 3 retries: timed out'')"
    by code_simp
  have h2: "fst (make_rpc_call (config events_of_2_down_net) ''sui_getCheckpointEvents''
      [PInt 2] empty_world) =
      Inl (BlockchainError ''Failed to make RPC call after 3 retries: timed out'')"
    by code_simp
  have h3: "fst (poll_checkpoints (config events_of_2_down_net) [1, 2] (watching_client 0)
      empty_world) = Inr ()"
    by code_simp
  obtain c' w' where h4: "poll_checkpoints (config events_of_2_down_net) [1, 2]
      (watching_client 0) empty_world = (Inr (), c', w')"
    using h3
    by (cases "poll_checkpoints (config events_of_2_down_net) [1, 2] (watching_client 0)
      empty_world") auto
  have h5: "[1, 2] \<noteq> ([] :: int list)" by simp
  show ?thesis
    using h1 h2 h4 h5
      failed_event_fetch_is_passed [where cfg = "config dead_net" and w = empty_world
        and c = "watching_client 4"]
      failed_event_fetch_is_passed [where cfg = "config events_of_2_down_net"
        and w = empty_world and cp = 2 and c = "watching_client 1" and rest = "[]"]
      failed_event_fetch_is_passed [where cfg = "config events_of_2_down_net"
        and w = empty_world and cps = "[1, 2]" and c = "watching_client 0"
        and c' = c' and w' = w' and u = "()"]
    by simp
qed

lemma log_extends_refl: "log_extends w w S"
  by (simp add: log_extends_def)

lemma log_extends_trans:
  "log_extends w w1 S \<Longrightarrow> log_extends w1 w2 T \<Longrightarrow> log_extends w w2 (S \<union> T)"
  by (auto simp: log_extends_def)

lemma log_extends_mono: "log_extends w w' S \<Longrightarrow> S \<subseteq> T \<Longrightarrow> log_extends w w' T"
  by (auto simp: log_extends_def)

lemma log_extends_same_log: "rpc_log w' = rpc_log w \<Longrightarrow> log_extends w w' S"
  by (simp add: log_extends_def)

lemma log_extends_one:
  "log_extends w (w\<lparr>rpc_log := rpc_log w @ [x]\<rparr>) {x}"
  by (simp add: log_extends_def)

lemma rpc_retry_loop_bad_body:
  assumes "retry_count < MAX_RETRIES cfg"
    and "net cfg (length (rpc_log w)) m p = BadBody e"
  shows "rpc_retry_loop cfg m p retry_count w = (Inl e, w\<lparr>rpc_log := rpc_log w @ [(m, p)]\<rparr>)"
  using assms by (subst rpc_retry_loop.simps) simp

lemma rpc_retry_loop_log:
  "log_extends w (snd (rpc_retry_loop cfg m p retry_count w)) {(m, p)}"
proof (induction "nat (MAX_RETRIES cfg - retry_count)" arbitrary: retry_count w rule: less_induct)
  case less
  show ?case
  proof (cases "retry_count < MAX_RETRIES cfg")
    case False
    then show ?thesis by (simp add: rpc_retry_loop_no_budget log_extends_refl)
  next
    case True
    show ?thesis
    proof (cases "net cfg (length (rpc_log w)) m p")
      case (ResultBody v)
      with True show ?thesis by (simp add: rpc_retry_loop_result log_extends_one)
    next
      case (ErrorBody msg repr)
      with True show ?thesis by (simp add: rpc_retry_loop_error log_extends_one)
    next
      case (BadBody e)
      with True show ?thesis by (simp add: rpc_retry_loop_bad_body log_extends_one)
    next
      case (RequestFailed e)
      show ?thesis
      proof (cases "retry_count + 1 < MAX_RETRIES cfg")
        case False
        with True RequestFailed show ?thesis
          by (simp add: rpc_retry_loop_exhausted log_extends_one)
      next
        case more: True
        let ?w = "w\<lparr>rpc_log := rpc_log w @ [(m, p)], sleeps := sleeps w @ [RETRY_DELAY cfg]\<rparr>"
        have "nat (MAX_RETRIES cfg - (retry_count + 1)) < nat (MAX_RETRIES cfg - retry_count)"
          using True by linarith
        then have ih: "log_extends ?w (snd (rpc_retry_loop cfg m p (retry_count + 1) ?w)) {(m, p)}"
          by (rule less)
        have "log_extends w ?w {(m, p)}" by (simp add: log_extends_def)
        from log_extends_trans [OF this ih] show ?thesis
          by (simp add: rpc_retry_loop_retry [OF more RequestFailed])
      qed
    qed
  qed
qed

lemma get_latest_checkpoint_log:
  "log_extends w (snd (get_latest_checkpoint cfg w))
     {(''sui_getLatestCheckpointSequenceNumber'', [])}"
  using rpc_retry_loop_log [of w cfg "''sui_getLatestCheckpointSequenceNumber''" "[]" 0]
  by (auto simp: get_latest_checkpoint_def make_rpc_call_def split: prod.splits sum.splits)

lemma get_events_by_checkpoint_log:
  "log_extends w (snd (get_events_by_checkpoint cfg cp w))
     {(''sui_getCheckpointEvents'', [PInt cp])}"
  using rpc_retry_loop_log [of w cfg "''sui_getCheckpointEvents''" "[PInt cp]" 0]
  by (auto simp: get_events_by_checkpoint_def make_rpc_call_def split: prod.splits sum.splits)

lemma listeners_loop_log: "rpc_log (snd (listeners_loop event ls w)) = rpc_log w"
proof (induction ls arbitrary: w)
  case Nil
  show ?case by simp
next
  case (Cons sl ls)
  obtain sid l where sl: "sl = (sid, l)" by (cases sl)
  show ?case
    unfolding sl using Cons.IH
    by (cases "event_matches event (event_type l) (filter_params l)")
       (simp_all split: bool.splits)
qed

lemma events_loop_log: "rpc_log (snd (events_loop ls evs w)) = rpc_log w"
proof (induction evs arbitrary: w)
  case Nil
  show ?case by simp
next
  case (Cons ev evs)
  show ?case
  proof (cases ev)
    case (PDict event)
    obtain r w1 where ll: "listeners_loop event ls w = (r, w1)"
      by (cases "listeners_loop event ls w")
    from listeners_loop_log [of event ls w] ll have "rpc_log w1 = rpc_log w" by simp
    with PDict ll Cons.IH [of w1] show ?thesis
      by (cases r) simp_all
  qed simp_all
qed

lemma process_events_log: "rpc_log (snd (process_events ls events w)) = rpc_log w"
  by (cases events) (simp_all add: process_events_def events_loop_log)

section \<open>Properties of the first poll and of registration\<close>

lemma poll_checkpoints_inv:
  "poll_checkpoints cfg cps c w = (r, c', w') \<Longrightarrow>
   log_extends w w' (fetch ` set cps) \<and>
   (last_processed_checkpoint c' = last_processed_checkpoint c \<or>
    last_processed_checkpoint c' \<in> Some ` set cps)"
proof (induction cps arbitrary: c w)
  case Nil
  then show ?case by (auto simp: log_extends_refl)
next
  case (Cons cp rest)
  obtain events w1 where ev: "get_events_by_checkpoint cfg cp w = (events, w1)"
    by (cases "get_events_by_checkpoint cfg cp w")
  obtain r1 w2 where pe: "process_events (event_listeners c) events w1 = (r1, w2)"
    by (cases "process_events (event_listeners c) events w1")
  have l1: "log_extends w w1 {fetch cp}"
    using get_events_by_checkpoint_log [of w cfg cp] ev by (simp add: fetch_def)
  have "rpc_log w2 = rpc_log w1"
    using process_events_log [of "event_listeners c" events w1] pe by simp
  then have l2: "log_extends w1 w2 {}" by (rule log_extends_same_log)
  have l3: "log_extends w w2 {fetch cp}"
    using log_extends_trans [OF l1 l2] by simp
  show ?case
  proof (cases r1)
    case (Inl e)
    with Cons.prems ev pe have "c' = c" and "w' = w2" by simp_all
    with l3 show ?thesis
      by (auto intro: log_extends_mono)
  next
    case (Inr u)
    with Cons.prems ev pe have rec:
      "poll_checkpoints cfg rest (c\<lparr>last_processed_checkpoint := Some cp\<rparr>) w2 = (r, c', w')"
      by simp
    from Cons.IH [OF rec] have l4: "log_extends w2 w' (fetch ` set rest)"
      and cur: "last_processed_checkpoint c' = Some cp \<or>
                last_processed_checkpoint c' \<in> Some ` set rest"
      by simp_all
    have "log_extends w w' ({fetch cp} \<union> fetch ` set rest)"
      by (rule log_extends_trans [OF l3 l4])
    then have "log_extends w w' (fetch ` set (cp # rest))" by simp
    moreover from cur have "last_processed_checkpoint c' \<in> Some ` set (cp # rest)" by auto
    ultimately show ?thesis by blast
  qed
qed

lemma poll_cycle_inv:
  assumes "last_processed_checkpoint c = Some k" and "poll_cycle cfg c w = (c', w')"
  shows "\<exists>k'. last_processed_checkpoint c' = Some k' \<and> k \<le> k' \<and>
           log_extends w w' (insert head_query (fetch ` {cp. k < cp}))"
proof -
  obtain r w1 where gl: "get_latest_checkpoint cfg w = (r, w1)"
    by (cases "get_latest_checkpoint cfg w")
  have l1: "log_extends w w1 {head_query}"
    using get_latest_checkpoint_log [of w cfg] gl by (simp add: head_query_def)
  show ?thesis
  proof (cases r)
    case (Inl e)
    with assms gl have "c' = c" and "rpc_log w' = rpc_log w1"
      by (auto simp: poll_cycle_def)
    then have "log_extends w w' {head_query}"
      using l1 by (simp add: log_extends_def)
    then have "log_extends w w' (insert head_query (fetch ` {cp. k < cp}))"
      by (rule log_extends_mono) auto
    with assms(1) \<open>c' = c\<close> show ?thesis by auto
  next
    case (Inr latest)
    obtain r2 c2 w2 where pc: "poll_checkpoints cfg [k + 1 .. latest] c w1 = (r2, c2, w2)"
      by (cases "poll_checkpoints cfg [k + 1 .. latest] c w1")
    from poll_checkpoints_inv [OF pc] have l2: "log_extends w1 w2 (fetch ` set [k + 1 .. latest])"
      and cur: "last_processed_checkpoint c2 = last_processed_checkpoint c \<or>
                last_processed_checkpoint c2 \<in> Some ` set [k + 1 .. latest]"
      by simp_all
    from assms gl Inr pc have "c' = c2" and "rpc_log w' = rpc_log w2"
      by (auto simp: poll_cycle_def split: sum.splits)
    have "log_extends w w2 ({head_query} \<union> fetch ` set [k + 1 .. latest])"
      by (rule log_extends_trans [OF l1 l2])
    then have "log_extends w w2 (insert head_query (fetch ` {cp. k < cp}))"
      by (rule log_extends_mono) auto
    then have "log_extends w w' (insert head_query (fetch ` {cp. k < cp}))"
      using \<open>rpc_log w' = rpc_log w2\<close> by (simp add: log_extends_def)
    moreover from cur assms(1) \<open>c' = c2\<close>
    have "\<exists>k'. last_processed_checkpoint c' = Some k' \<and> k \<le> k'" by auto
    ultimately show ?thesis by blast
  qed
qed

lemma poll_cycles_inv:
  "last_processed_checkpoint c = Some k \<Longrightarrow> poll_cycles n cfg c w = (c', w') \<Longrightarrow>
   \<exists>k'. last_processed_checkpoint c' = Some k' \<and> k \<le> k' \<and>
        log_extends w w' (insert head_query (fetch ` {cp. k < cp}))"
proof (induction n arbitrary: c w k)
  case 0
  then show ?case by (auto simp: log_extends_refl)
next
  case (Suc n)
  obtain c1 w1 where pc: "poll_cycle cfg c w = (c1, w1)"
    by (cases "poll_cycle cfg c w")
  from poll_cycle_inv [OF Suc.prems(1) pc] obtain k1
    where k1: "last_processed_checkpoint c1 = Some k1" "k \<le> k1"
      and l1: "log_extends w w1 (insert head_query (fetch ` {cp. k < cp}))"
    by blast
  from Suc.prems(2) pc have rest: "poll_cycles n cfg c1 w1 = (c', w')" by simp
  from Suc.IH [OF k1(1) rest] obtain k' where k': "last_processed_checkpoint c' = Some k'"
      "k1 \<le> k'"
      and l2: "log_extends w1 w' (insert head_query (fetch ` {cp. k1 < cp}))"
    by blast
  have "log_extends w1 w' (insert head_query (fetch ` {cp. k < cp}))"
    using l2 by (rule log_extends_mono) (use k1(2) in auto)
  from log_extends_trans [OF l1 this]
  have "log_extends w w' (insert head_query (fetch ` {cp. k < cp}))" by simp
  with k' k1(2) show ?case by auto
qed

lemma fetch_in_log:
  assumes "log_extends w w' (insert head_query (fetch ` {cp. k < cp}))"
  shows "\<exists>new. rpc_log w' = rpc_log w @ new \<and>
           (\<forall>cp. (''sui_getCheckpointEvents'', [PInt cp]) \<in> set new \<longrightarrow> k < cp)"
proof -
  from assms obtain new where n: "rpc_log w' = rpc_log w @ new"
      "set new \<subseteq> insert head_query (fetch ` {cp. k < cp})"
    by (auto simp: log_extends_def)
  have "k < cp" if "(''sui_getCheckpointEvents'', [PInt cp]) \<in> set new" for cp
  proof -
    from that n(2) have "(''sui_getCheckpointEvents'', [PInt cp]) \<in>
        insert head_query (fetch ` {cp. k < cp})" by blast
    then show ?thesis by (auto simp: head_query_def fetch_def)
  qed
  with n(1) show ?thesis by blast
qed

lemma poll_init_unset:
  assumes "last_processed_checkpoint c = None"
  shows "poll_init cfg c w =
     (c\<lparr>last_processed_checkpoint :=
          Some (case fst (get_latest_checkpoint cfg w) of Inr n \<Rightarrow> n | Inl e \<Rightarrow> 0)\<rparr>,
      snd (get_latest_checkpoint cfg w))"
  using assms
  by (cases "get_latest_checkpoint cfg w")
     (auto simp: poll_init_def split: sum.splits)

text \<open>
  C7, amended: on the first poll with the cursor unset the loop queries the latest
  checkpoint; when the query succeeds its value becomes the starting cursor, and when it
  fails the cursor starts at 0. From then on the cursor never decreases, and every event
  fetch is for a checkpoint strictly after the starting cursor.
\<close>

theorem first_poll_cursor:
  assumes "last_processed_checkpoint c = None"
    and "poll_init cfg c w = (c1, w1)"
    and "poll_cycles n cfg c1 w1 = (c2, w2)"
    and "poll_cycles j cfg c2 w2 = (c3, w3)"
  shows "\<exists>s k2 k3 new.
           last_processed_checkpoint c1 = Some s \<and>
           s = (case fst (get_latest_checkpoint cfg w) of Inr v \<Rightarrow> v | Inl e \<Rightarrow> 0) \<and>
           last_processed_checkpoint c2 = Some k2 \<and>
           last_processed_checkpoint c3 = Some k3 \<and>
           s \<le> k2 \<and> k2 \<le> k3 \<and>
           rpc_log w3 = rpc_log w1 @ new \<and>
           (\<forall>cp. (''sui_getCheckpointEvents'', [PInt cp]) \<in> set new \<longrightarrow> s < cp)"
proof -
  define s where "s = (case fst (get_latest_checkpoint cfg w) of Inr v \<Rightarrow> v | Inl e \<Rightarrow> 0)"
  from poll_init_unset [OF assms(1), of cfg w] assms(2)
  have c1: "last_processed_checkpoint c1 = Some s"
    by (auto simp: s_def)
  from poll_cycles_inv [OF c1 assms(3)] obtain k2
    where k2: "last_processed_checkpoint c2 = Some k2" "s \<le> k2"
      and l1: "log_extends w1 w2 (insert head_query (fetch ` {cp. s < cp}))"
    by blast
  from poll_cycles_inv [OF k2(1) assms(4)] obtain k3
    where k3: "last_processed_checkpoint c3 = Some k3" "k2 \<le> k3"
      and l2: "log_extends w2 w3 (insert head_query (fetch ` {cp. k2 < cp}))"
    by blast
  have "log_extends w2 w3 (insert head_query (fetch ` {cp. s < cp}))"
    using l2 by (rule log_extends_mono) (use k2(2) in auto)
  from log_extends_trans [OF l1 this]
  have "log_extends w1 w3 (insert head_query (fetch ` {cp. s < cp}))" by simp
  from fetch_in_log [OF this] obtain new where new: "rpc_log w3 = rpc_log w1 @ new"
      "\<forall>cp. (''sui_getCheckpointEvents'', [PInt cp]) \<in> set new \<longrightarrow> s < cp"
    by blast
  from c1 k2 k3 new show ?thesis
    unfolding s_def by blast
qed


theorem first_poll_cursor_witness:
  "last_processed_checkpoint
     (fst (poll_init (config head_at_7_net) (BlockchainClient_init None []) empty_world))
     = Some 7 \<and>
   (\<exists>k. last_processed_checkpoint
          (fst (poll_events 2 (config head_at_7_net) (BlockchainClient_init None [])
                  empty_world)) = Some k \<and> 7 \<le> k)"
proof -
  let ?cfg = "config head_at_7_net"
  let ?c = "BlockchainClient_init None []"
  have h0: "last_processed_checkpoint ?c = None"
    by (simp add: BlockchainClient_init_def)
  obtain c1 w1 where h1: "poll_init ?cfg ?c empty_world = (c1, w1)"
    by (cases "poll_init ?cfg ?c empty_world")
  obtain c2 w2 where h2: "poll_cycles 1 ?cfg c1 w1 = (c2, w2)"
    by (cases "poll_cycles 1 ?cfg c1 w1")
  obtain c3 w3 where h3: "poll_cycles 1 ?cfg c2 w2 = (c3, w3)"
    by (cases "poll_cycles 1 ?cfg c2 w2")
  have head: "fst (get_latest_checkpoint ?cfg empty_world) = Inr 7"
    by code_simp
  have two: "poll_events 2 ?cfg ?c empty_world = (c3, w3)"
    using h1 h2 h3 by (simp add: poll_events_def numeral_2_eq_2 split: prod.splits)
  from first_poll_cursor [OF h0 h1 h2 h3] head two h1 show ?thesis
    by auto
qed

text \<open>
  C7, as stated, fails: when the first query for the latest checkpoint fails, no value of
  the chain is adopted; the cursor starts at 0, and with the head at 2 the next cycle
  fetches the events of checkpoint 1, which lies before the head.
\<close>

theorem first_poll_failure_backfills:
  "last_processed_checkpoint (BlockchainClient_init None []) = None \<and>
   last_processed_checkpoint
     (fst (poll_init (config head_down_at_start_net) (BlockchainClient_init None [])
             empty_world)) = Some 0 \<and>
   fst (get_latest_checkpoint (config head_down_at_start_net)
          (snd (poll_init (config head_down_at_start_net) (BlockchainClient_init None [])
                  empty_world))) = Inr 2 \<and>
   (''sui_getCheckpointEvents'', [PInt 1]) \<in>
     set (rpc_log (snd (poll_events 1 (config head_down_at_start_net)
                          (BlockchainClient_init None []) empty_world)))"
  by code_simp

lemma py_eq_PStr_right: "py_eq x (PStr s) \<longleftrightarrow> x = PStr s"
  by (cases x) auto

lemma type_key_plain: "\<not> py_in ''.'' ''type''"
  by (simp add: py_in_single)

lemma synthesized_type_filter:
  assumes "event_matches e CUSTOM (AList.update ''type'' (PStr name) f) = Inr True"
  shows "map_of e ''type'' = Some (PStr name)"
proof -
  have "map_of (AList.update ''type'' (PStr name) f) ''type'' = Some (PStr name)"
    by (simp add: update_conv')
  then have mem: "(''type'', PStr name) \<in> set (AList.update ''type'' (PStr name) f)"
    by (rule map_of_SomeD)
  from assms have "spec_matches e CUSTOM (AList.update ''type'' (PStr name) f)"
    by (simp add: event_matches_True_iff)
  with mem have "spec_entry_holds e (''type'', PStr name)"
    unfolding spec_matches_def by blast
  then show ?thesis
    by (auto simp: filter_entry_spec type_key_plain py_eq_PStr_right)
qed

text \<open>
  C9: registering a handler by name stores one subscription under that name. When the
  upper-cased name is a member of the enumeration, the subscription has that category and
  the filter as given. Otherwise it has the category \<open>CUSTOM\<close> and the filter with the entry
  \<^verbatim>\<open>"type"\<close> set to the name as given, so that it matches only events whose type is
  exactly that name.
\<close>

theorem register_event_handler_category:
  "\<exists>sid. map_of (event_subscriptions (register_event_handler a name handler fp now)) name
           = Some sid \<and>
     (\<forall>t. EventType_by_name (upper name) = Some t \<longrightarrow>
        map_of (event_listeners (blockchain_client
                  (register_event_handler a name handler fp now))) sid
          = Some \<lparr>event_type = t, callback = handler,
                  filter_params = (case fp of None \<Rightarrow> [] | Some f \<Rightarrow> f)\<rparr>) \<and>
     (EventType_by_name (upper name) = None \<longrightarrow>
        map_of (event_listeners (blockchain_client
                  (register_event_handler a name handler fp now))) sid
          = Some \<lparr>event_type = CUSTOM, callback = handler,
                  filter_params = AList.update ''type'' (PStr name)
                                    (case fp of None \<Rightarrow> [] | Some f \<Rightarrow> f)\<rparr> \<and>
        (\<forall>e. event_matches e CUSTOM
               (AList.update ''type'' (PStr name) (case fp of None \<Rightarrow> [] | Some f \<Rightarrow> f))
               = Inr True
             \<longrightarrow> map_of e ''type'' = Some (PStr name)))"
proof (cases "EventType_by_name (upper name)")
  case None
  have ne: "AList.update ''type'' (PStr name) g \<noteq> []" for g
    by (cases g) auto
  show ?thesis
    using None synthesized_type_filter
    by (auto simp: register_event_handler_def subscribe_to_events_def Let_def update_conv' ne
        split: option.splits)
next
  case (Some t)
  then show ?thesis
    by (auto simp: register_event_handler_def subscribe_to_events_def Let_def update_conv'
        split: option.splits)
qed


theorem register_event_handler_category_witness:
  "EventType_by_name (upper ''Nft_Transfer'') = Some NFT_TRANSFER \<and>
   EventType_by_name (upper ''liquidity_imbalance'') = None \<and>
   (\<exists>sid. map_of (event_subscriptions
                (register_event_handler fresh_agent ''Nft_Transfer'' ''on_nft'' None 1700000000))
              ''Nft_Transfer'' = Some sid \<and>
          map_of (event_listeners (blockchain_client
                (register_event_handler fresh_agent ''Nft_Transfer'' ''on_nft'' None 1700000000)))
              sid
            = Some \<lparr>event_type = NFT_TRANSFER, callback = ''on_nft'', filter_params = []\<rparr>) \<and>
   (\<exists>sid. map_of (event_subscriptions
                (register_event_handler fresh_agent ''liquidity_imbalance'' ''on_imbalance''
                   (Some [(''pool'', PStr ''A'')]) 1700000000))
              ''liquidity_imbalance'' = Some sid \<and>
          map_of (event_listeners (blockchain_client
                (register_event_handler fresh_agent ''liquidity_imbalance'' ''on_imbalance''
                   (Some [(''pool'', PStr ''A'')]) 1700000000)))
              sid
            = Some \<lparr>event_type = CUSTOM, callback = ''on_imbalance'',
                    filter_params = [(''pool'', PStr ''A''),
                                     (''type'', PStr ''liquidity_imbalance'')]\<rparr>)"
proof -
  have h1: "EventType_by_name (upper ''Nft_Transfer'') = Some NFT_TRANSFER"
    by code_simp
  have h2: "EventType_by_name (upper ''liquidity_imbalance'') = None"
    by code_simp
  have h3: "AList.update ''type'' (PStr ''liquidity_imbalance'') [(''pool'', PStr ''A'')] =
      [(''pool'', PStr ''A''), (''type'', PStr ''liquidity_imbalance'')]"
    by simp
  from register_event_handler_category [where a = fresh_agent and name = "''Nft_Transfer''"
      and handler = "''on_nft''" and fp = None and now = 1700000000] h1
  have a: "\<exists>sid. map_of (event_subscriptions
                (register_event_handler fresh_agent ''Nft_Transfer'' ''on_nft'' None 1700000000))
              ''Nft_Transfer'' = Some sid \<and>
          map_of (event_listeners (blockchain_client
                (register_event_handler fresh_agent ''Nft_Transfer'' ''on_nft'' None 1700000000)))
              sid
            = Some \<lparr>event_type = NFT_TRANSFER, callback = ''on_nft'', filter_params = []\<rparr>"
    by auto
  from register_event_handler_category [where a = fresh_agent
      and name = "''liquidity_imbalance''" and handler = "''on_imbalance''"
      and fp = "Some [(''pool'', PStr ''A'')]" and now = 1700000000] h2 h3
  have b: "\<exists>sid. map_of (event_subscriptions
                (register_event_handler fresh_agent ''liquidity_imbalance'' ''on_imbalance''
                   (Some [(''pool'', PStr ''A'')]) 1700000000))
              ''liquidity_imbalance'' = Some sid \<and>
          map_of (event_listeners (blockchain_client
                (register_event_handler fresh_agent ''liquidity_imbalance'' ''on_imbalance''
                   (Some [(''pool'', PStr ''A'')]) 1700000000)))
              sid
            = Some \<lparr>event_type = CUSTOM, callback = ''on_imbalance'',
                    filter_params = [(''pool'', PStr ''A''),
                                     (''type'', PStr ''liquidity_imbalance'')]\<rparr>"
    by auto
  from h1 h2 a b show ?thesis by blast
qed

end
